theory Spec2Isabelle
  imports Complex_Main
begin

section \<open>Data model (models.py)\<close>

text \<open>
  The three tables the comment, rating and ownership logic works on. Primary keys and
  foreign keys are Python integers, hence \<open>int\<close>. \<open>Movie.user_id\<close> is a nullable
  column. The \<open>created_at\<close>/\<open>updated_at\<close> columns are left out: no operation below
  branches on them. A date is its ordinal number.
\<close>

type_synonym date = int

record movie =
  m_id :: int
  m_title :: string
  m_description :: string
  m_release_date :: date
  m_user_id :: "int option"

record comment =
  c_id :: int
  c_comment_text :: string
  c_movie_id :: int
  c_user_id :: int
  c_parent_comment_id :: "int option"

record rating =
  r_id :: int
  r_rating :: int
  r_movie_id :: int
  r_user_id :: int

text \<open>
  The relational store: one list of rows per table, in insertion order. A query without
  \<open>ORDER BY\<close> returns rows in table order.
\<close>

record db =
  movies :: "movie list"
  comments :: "comment list"
  ratings :: "rating list"

definition empty_db :: db where
  "empty_db = \<lparr>movies = [], comments = [], ratings = []\<rparr>"

text \<open>
  An integer primary key that the caller does not supply is assigned by the store:
  one more than the largest key of the table, 1 for an empty table.
\<close>

definition next_id :: "int list \<Rightarrow> int" where
  "next_id ids = fold max ids 0 + 1"

section \<open>Errors\<close>

text \<open>
  \<open>HTTPException status detail\<close> is FastAPI's exception. \<open>ValueError\<close> is Python's.
  \<open>ValidationError\<close> is the failure of a request body against its pydantic schema,
  which FastAPI answers with status 422 before the endpoint's body runs.
  \<open>IntegrityError\<close> is the store refusing a row (a NULL in a NOT NULL column).
\<close>

datatype error =
    HTTPException int string
  | ValueError string
  | ValidationError string
  | IntegrityError string

fun status_code :: "error \<Rightarrow> int" where
  "status_code (HTTPException s d) = s"
| "status_code (ValidationError d) = 422"
| "status_code (ValueError d) = 500"
| "status_code (IntegrityError d) = 500"

section \<open>Request schemas (schema.py)\<close>

record CommentCreate =
  comment_text :: string

text \<open>\<open>CommentBase.comment_text\<close> carries \<open>StringConstraints(min_length=2)\<close>.\<close>

definition validate_CommentCreate :: "CommentCreate \<Rightarrow> error + CommentCreate" where
  "validate_CommentCreate body =
     (if length (comment_text body) < 2
      then Inl (ValidationError ''String should have at least 2 characters'')
      else Inr body)"

text \<open>\<open>RatingBase.check_rating\<close>, the field validator of \<open>rating\<close>.\<close>

definition check_rating :: "int \<Rightarrow> error + int" where
  "check_rating v =
     (if v < 1 \<or> v > 10 then Inl (ValueError ''Rating must be between 1 and 10'')
      else Inr v)"

record RatingCreate =
  rating :: int

text \<open>
  Building a \<open>RatingCreate\<close> from the request body runs the validator; pydantic turns
  the validator's \<open>ValueError\<close> into a validation error.
\<close>

definition validate_RatingCreate :: "int \<Rightarrow> error + RatingCreate" where
  "validate_RatingCreate v =
     (case check_rating v of
        Inl (ValueError msg) \<Rightarrow> Inl (ValidationError msg)
      | Inl e \<Rightarrow> Inl e
      | Inr v' \<Rightarrow> Inr \<lparr>rating = v'\<rparr>)"

section \<open>Comments (crud.py)\<close>

definition get_comment :: "db \<Rightarrow> int \<Rightarrow> comment option" where
  "get_comment d comment_id = find (\<lambda>c. c_id c = comment_id) (comments d)"

definition query_movie :: "db \<Rightarrow> int \<Rightarrow> movie option" where
  "query_movie d movie_id = find (\<lambda>m. m_id m = movie_id) (movies d)"

text \<open>
  A mutating operation returns its outcome together with the store it leaves behind;
  an exception raised before \<open>db.commit()\<close> leaves the store as it was.
\<close>

definition create_comment ::
  "db \<Rightarrow> CommentCreate \<Rightarrow> int \<Rightarrow> int \<Rightarrow> (error + comment) \<times> db" where
  "create_comment d cm user_id movie_id =
     (case query_movie d movie_id of
        None \<Rightarrow> (Inl (ValueError ''Movie not found''), d)
      | Some movie \<Rightarrow>
          (let db_comment = \<lparr>c_id = next_id (map c_id (comments d)),
                             c_comment_text = comment_text cm,
                             c_movie_id = movie_id,
                             c_user_id = user_id,
                             c_parent_comment_id = None\<rparr>
           in (Inr db_comment, d\<lparr>comments := comments d @ [db_comment]\<rparr>)))"

definition create_nested_comment ::
  "db \<Rightarrow> CommentCreate \<Rightarrow> int \<Rightarrow> int \<Rightarrow> (error + comment) \<times> db" where
  "create_nested_comment d cm parent_comment_id user_id =
     (case find (\<lambda>c. c_id c = parent_comment_id) (comments d) of
        None \<Rightarrow> (Inl (ValueError ''Parent comment does not exist''), d)
      | Some parent_comment \<Rightarrow>
          (let db_comment = \<lparr>c_id = next_id (map c_id (comments d)),
                             c_comment_text = comment_text cm,
                             c_movie_id = c_movie_id parent_comment,
                             c_user_id = user_id,
                             c_parent_comment_id = Some parent_comment_id\<rparr>
           in (Inr db_comment, d\<lparr>comments := comments d @ [db_comment]\<rparr>)))"

text \<open>
  \<open>Comment.replies\<close> is declared with \<open>cascade="all, delete-orphan"\<close>: deleting a comment
  deletes its replies, their replies, and so on. \<open>cascade cs S\<close> saturates the list \<open>S\<close>
  of ids marked for deletion with the ids of the rows of \<open>cs\<close> that reply to a marked row.
\<close>

definition replies_to :: "comment list \<Rightarrow> int list \<Rightarrow> int list" where
  "replies_to cs S =
     map c_id (filter (\<lambda>c. (case c_parent_comment_id c of None \<Rightarrow> False | Some p \<Rightarrow> p \<in> set S)
                            \<and> c_id c \<notin> set S) cs)"

function cascade :: "comment list \<Rightarrow> int list \<Rightarrow> int list" where
  "cascade cs S = (if replies_to cs S = [] then S else cascade cs (S @ replies_to cs S))"
  by pat_completeness auto
termination
proof (relation "measure (\<lambda>(cs, S). card (c_id ` set cs - set S))")
  show "wf (measure (\<lambda>(cs, S). card (c_id ` set cs - set S)))"
    by simp
next
  fix cs :: "comment list" and S :: "int list"
  assume ne: "replies_to cs S \<noteq> []"
  then obtain x where x: "x \<in> set (replies_to cs S)"
    by (cases "replies_to cs S") auto
  have sub: "set (replies_to cs S) \<subseteq> c_id ` set cs - set S"
    by (auto simp: replies_to_def)
  have "c_id ` set cs - set (S @ replies_to cs S) \<subset> c_id ` set cs - set S"
    using x sub by auto
  then have "card (c_id ` set cs - set (S @ replies_to cs S)) < card (c_id ` set cs - set S)"
    by (intro psubset_card_mono) auto
  then show "((cs, S @ replies_to cs S), (cs, S)) \<in> measure (\<lambda>(cs, S). card (c_id ` set cs - set S))"
    by simp
qed

declare cascade.simps [simp del]

text \<open>\<open>db.delete(db_comment)\<close> followed by \<open>db.commit()\<close>.\<close>

definition session_delete_comment :: "db \<Rightarrow> comment \<Rightarrow> db" where
  "session_delete_comment d c =
     d\<lparr>comments := filter (\<lambda>x. c_id x \<notin> set (cascade (comments d) [c_id c])) (comments d)\<rparr>"

definition delete_comment :: "db \<Rightarrow> int \<Rightarrow> db" where
  "delete_comment d comment_id =
     (case get_comment d comment_id of
        Some db_comment \<Rightarrow> session_delete_comment d db_comment
      | None \<Rightarrow> d)"

text \<open>
  A comment as the API returns it (\<open>schema.Comment\<close>): the row and, in \<open>replies\<close>, the
  comments that answer it, each of the same shape.
\<close>

datatype comment_tree = CommentNode comment "comment_tree list"

text \<open>
  \<open>load_replies\<close>, the function nested in \<open>load_comments_with_replies\<close>: the rows whose
  parent is the comment, each with its own replies loaded the same way. The Python
  recursion has no bound, and does not return when a comment is among its own
  descendants. The first argument bounds the depth of the recursion; \<open>None\<close> stands for
  a recursion that went deeper than that.
\<close>

fun load_replies :: "nat \<Rightarrow> comment list \<Rightarrow> comment \<Rightarrow> comment_tree list option" where
  "load_replies 0 cs c = None"
| "load_replies (Suc n) cs c =
     those (map (\<lambda>reply. map_option (CommentNode reply) (load_replies n cs reply))
                (filter (\<lambda>r. c_parent_comment_id r = Some (c_id c)) cs))"

text \<open>
  What it means for a returned comment to carry its full reply subtree: the \<open>replies\<close> of
  every node are exactly the rows of the table that answer that node, in table order.
\<close>

fun root_of :: "comment_tree \<Rightarrow> comment" where
  "root_of (CommentNode c ts) = c"

fun full_tree :: "comment list \<Rightarrow> comment_tree \<Rightarrow> bool" where
  "full_tree cs (CommentNode c ts) \<longleftrightarrow>
     map root_of ts = filter (\<lambda>r. c_parent_comment_id r = Some (c_id c)) cs \<and>
     (\<forall>t \<in> set ts. full_tree cs t)"

fun tree_ids :: "comment_tree \<Rightarrow> int list" where
  "tree_ids (CommentNode c ts) = c_id c # concat (map tree_ids ts)"

text \<open>
  A chain of replies in a table of \<open>n\<close> rows without a cycle has at most \<open>n\<close> rows, so
  depth \<open>n\<close> is enough whenever the Python recursion returns at all
  (see \<open>load_replies_total\<close> and \<open>load_replies_more_fuel\<close>).
\<close>

definition load_comments_with_replies :: "db \<Rightarrow> int \<Rightarrow> comment_tree list option" where
  "load_comments_with_replies d movie_id =
     those (map (\<lambda>c. map_option (CommentNode c) (load_replies (length (comments d)) (comments d) c))
                (filter (\<lambda>c. c_movie_id c = movie_id \<and> c_parent_comment_id c = None)
                        (comments d)))"

text \<open>
  Pagination as the store applies it (SQLite): a negative \<open>OFFSET\<close> skips nothing and a
  negative \<open>LIMIT\<close> is no limit.
\<close>

definition sql_offset :: "int \<Rightarrow> 'a list \<Rightarrow> 'a list" where
  "sql_offset k xs = drop (nat k) xs"

definition sql_limit :: "int \<Rightarrow> 'a list \<Rightarrow> 'a list" where
  "sql_limit k xs = (if k < 0 then xs else take (nat k) xs)"

definition get_comments :: "db \<Rightarrow> int \<Rightarrow> int \<Rightarrow> int \<Rightarrow> error + comment list" where
  "get_comments d movie_id skip limit =
     (case query_movie d movie_id of
        None \<Rightarrow> Inl (HTTPException 404 ''Movie not found'')
      | Some movie \<Rightarrow>
          Inr (sql_limit limit (sql_offset skip
                 (filter (\<lambda>c. c_movie_id c = movie_id \<and> c_parent_comment_id c = None)
                         (comments d)))))"

section \<open>Movies (crud.py)\<close>

text \<open>Python's truth value of an \<open>Optional[int]\<close>: \<open>None\<close> and \<open>0\<close> are false.\<close>

fun truthy :: "int option \<Rightarrow> bool" where
  "truthy None = False"
| "truthy (Some n) = (n \<noteq> 0)"

text \<open>
  \<open>get_movie\<close> returns the movie with its \<open>comments\<close> attribute set to the loaded root
  comments. The outer \<open>option\<close> is \<open>None\<close> when loading the replies does not return.
\<close>

definition get_movie ::
  "db \<Rightarrow> int \<Rightarrow> int option \<Rightarrow> (movie \<times> comment_tree list) option option" where
  "get_movie d ident user_id =
     (let query = filter (\<lambda>m. m_id m = ident) (movies d);
          query' = (if truthy user_id then filter (\<lambda>m. m_user_id m = user_id) query else query)
      in case query' of
           [] \<Rightarrow> Some None
         | movie # rest \<Rightarrow>
             map_option (\<lambda>loaded. Some (movie, loaded)) (load_comments_with_replies d (m_id movie)))"

text \<open>
  \<open>db.delete(movie)\<close> followed by \<open>db.commit()\<close>. \<open>Movie.comments\<close> and \<open>Movie.ratings\<close>
  are declared with \<open>cascade="all, delete-orphan"\<close>: the movie's comments go, with their
  replies by the cascade of \<open>Comment.replies\<close>, and the movie's ratings go. The comments
  that \<open>get_movie\<close> took out of \<open>movie.comments\<close> by assigning the root comments to it are
  orphans of that relationship and go as well, so every row with the movie's id is a seed.
\<close>

definition session_delete_movie :: "db \<Rightarrow> movie \<Rightarrow> db" where
  "session_delete_movie d m =
     \<lparr>movies = filter (\<lambda>x. m_id x \<noteq> m_id m) (movies d),
      comments = filter (\<lambda>x. c_id x \<notin> set (cascade (comments d)
                    (map c_id (filter (\<lambda>c. c_movie_id c = m_id m) (comments d))))) (comments d),
      ratings = filter (\<lambda>r. r_movie_id r \<noteq> m_id m) (ratings d)\<rparr>"

definition delete_movie :: "db \<Rightarrow> int \<Rightarrow> int \<Rightarrow> (movie option \<times> db) option" where
  "delete_movie d movie_id user_id =
     (case get_movie d movie_id (Some user_id) of
        None \<Rightarrow> None
      | Some None \<Rightarrow> Some (None, d)
      | Some (Some (movie, loaded)) \<Rightarrow> Some (Some movie, session_delete_movie d movie))"

record MovieListingBase =
  title :: string
  description :: "string option"
  release_date :: "date option"

text \<open>\<open>MovieCreate\<close> and \<open>MovieUpdate\<close> constrain \<open>title\<close> with \<open>min_length=1\<close>.\<close>

definition validate_Movie :: "MovieListingBase \<Rightarrow> error + MovieListingBase" where
  "validate_Movie body =
     (if length (title body) < 1
      then Inl (ValidationError ''String should have at least 1 character'')
      else Inr body)"

text \<open>
  \<open>description\<close> and \<open>release_date\<close> are optional in the schema and NOT NULL in the table:
  the store refuses a row without them.
\<close>

definition create_movie :: "db \<Rightarrow> MovieListingBase \<Rightarrow> int \<Rightarrow> (error + movie) \<times> db" where
  "create_movie d mv user_id =
     (case (description mv, release_date mv) of
        (Some desc, Some rd) \<Rightarrow>
          (let db_movie = \<lparr>m_id = next_id (map m_id (movies d)),
                            m_title = title mv,
                            m_description = desc,
                            m_release_date = rd,
                            m_user_id = Some user_id\<rparr>
           in (Inr db_movie, d\<lparr>movies := movies d @ [db_movie]\<rparr>))
      | _ \<Rightarrow> (Inl (IntegrityError ''NOT NULL constraint failed''), d))"

section \<open>Ratings (crud.py)\<close>

definition create_rating :: "db \<Rightarrow> RatingCreate \<Rightarrow> int \<Rightarrow> int \<Rightarrow> rating \<times> db" where
  "create_rating d rt movie_id user_id =
     (let db_rating = \<lparr>r_id = next_id (map r_id (ratings d)),
                        r_rating = rating rt,
                        r_movie_id = movie_id,
                        r_user_id = user_id\<rparr>
      in (db_rating, d\<lparr>ratings := ratings d @ [db_rating]\<rparr>))"

text \<open>
  The store's \<open>AVG\<close> aggregate: absent over no rows, the mean otherwise. The mean is
  taken in the reals; the rounding of the store's floating-point format is not modelled.
\<close>

definition sql_avg :: "int list \<Rightarrow> real option" where
  "sql_avg vs = (if vs = [] then None else Some (real_of_int (sum_list vs) / real (length vs)))"

definition get_average_rating :: "db \<Rightarrow> int \<Rightarrow> real option" where
  "get_average_rating d movie_id =
     sql_avg (map r_rating (filter (\<lambda>r. r_movie_id r = movie_id) (ratings d)))"

section \<open>Endpoints (main.py)\<close>

text \<open>
  Each endpoint takes the store, its path and body parameters, and the id of the user
  that \<open>get_current_user\<close> resolved from the credential. The request body is checked
  against its schema before the endpoint's body runs.
\<close>

definition update_movie ::
  "db \<Rightarrow> int \<Rightarrow> MovieListingBase \<Rightarrow> int \<Rightarrow> (error + movie) \<times> db" where
  "update_movie d movie_id body user_id =
     (case validate_Movie body of
        Inl e \<Rightarrow> (Inl e, d)
      | Inr payload \<Rightarrow>
          (case find (\<lambda>m. m_id m = movie_id \<and> m_user_id m = Some user_id) (movies d) of
             None \<Rightarrow> (Inl (HTTPException 404 ''Movie not found''), d)
           | Some movie \<Rightarrow>
               (let movie' = movie
                      \<lparr>m_title := (if title payload \<noteq> [] then title payload else m_title movie),
                       m_description :=
                         (case description payload of
                            None \<Rightarrow> m_description movie
                          | Some s \<Rightarrow> if s \<noteq> [] then s else m_description movie),
                       m_release_date :=
                         (case release_date payload of
                            None \<Rightarrow> m_release_date movie
                          | Some r \<Rightarrow> r)\<rparr>
                in (Inr movie',
                    d\<lparr>movies := map (\<lambda>m. if m_id m = m_id movie then movie' else m) (movies d)\<rparr>))))"

definition create_movie_endpoint ::
  "db \<Rightarrow> MovieListingBase \<Rightarrow> int \<Rightarrow> (error + movie) \<times> db" where
  "create_movie_endpoint d body user_id =
     (case validate_Movie body of
        Inl e \<Rightarrow> (Inl e, d)
      | Inr payload \<Rightarrow> create_movie d payload user_id)"

record MovieDeleteResponse =
  message :: string
  data :: movie

definition delete_movie_endpoint ::
  "db \<Rightarrow> int \<Rightarrow> int \<Rightarrow> ((error + MovieDeleteResponse) \<times> db) option" where
  "delete_movie_endpoint d movie_id user_id =
     (case delete_movie d movie_id user_id of
        None \<Rightarrow> None
      | Some (None, d') \<Rightarrow> Some (Inl (HTTPException 404 ''Movie not found''), d')
      | Some (Some deleted_movie, d') \<Rightarrow>
          Some (Inr \<lparr>message = ''success'', data = deleted_movie\<rparr>, d'))"

definition add_comment ::
  "db \<Rightarrow> int \<Rightarrow> CommentCreate \<Rightarrow> int \<Rightarrow> (error + comment) \<times> db" where
  "add_comment d movie_id body user_id =
     (case validate_CommentCreate body of
        Inl e \<Rightarrow> (Inl e, d)
      | Inr cm \<Rightarrow>
          (case query_movie d movie_id of
             None \<Rightarrow> (Inl (HTTPException 404 ''Movie not found''), d)
           | Some movie \<Rightarrow>
               (case create_comment d cm user_id movie_id of
                  (Inl (ValueError msg), d') \<Rightarrow> (Inl (HTTPException 400 msg), d')
                | r \<Rightarrow> r)))"

definition add_nested_comment ::
  "db \<Rightarrow> int \<Rightarrow> CommentCreate \<Rightarrow> int \<Rightarrow> (error + comment) \<times> db" where
  "add_nested_comment d parent_comment_id body user_id =
     (case validate_CommentCreate body of
        Inl e \<Rightarrow> (Inl e, d)
      | Inr cm \<Rightarrow>
          (case create_nested_comment d cm parent_comment_id user_id of
             (Inl (ValueError msg), d') \<Rightarrow> (Inl (HTTPException 400 msg), d')
           | r \<Rightarrow> r))"

definition delete_comment_endpoint :: "db \<Rightarrow> int \<Rightarrow> int \<Rightarrow> (error + string) \<times> db" where
  "delete_comment_endpoint d comment_id user_id =
     (case get_comment d comment_id of
        None \<Rightarrow> (Inl (HTTPException 404 ''Comment not found''), d)
      | Some cmt \<Rightarrow>
          if c_user_id cmt \<noteq> user_id
          then (Inl (HTTPException 403 ''Not authorized to delete this comment''), d)
          else (Inr ''success'', delete_comment d comment_id))"

text \<open>
  The response model of \<open>get_comments\<close> is \<open>List[schema.Comment]\<close>: each returned row is
  serialised with its \<open>replies\<close> relationship, recursively, which is the traversal of
  \<open>load_replies\<close>. \<open>None\<close> when that traversal does not return.
\<close>

definition get_comments_endpoint ::
  "db \<Rightarrow> int \<Rightarrow> int \<Rightarrow> int \<Rightarrow> (error + comment_tree list) option" where
  "get_comments_endpoint d movie_id skip limit =
     (case get_comments d movie_id skip limit of
        Inl e \<Rightarrow> Some (Inl e)
      | Inr cmts \<Rightarrow>
          map_option Inr
            (those (map (\<lambda>c. map_option (CommentNode c)
                               (load_replies (length (comments d)) (comments d) c)) cmts)))"

definition add_rating :: "db \<Rightarrow> int \<Rightarrow> int \<Rightarrow> int \<Rightarrow> (error + rating) \<times> db" where
  "add_rating d movie_id body user_id =
     (case validate_RatingCreate body of
        Inl e \<Rightarrow> (Inl e, d)
      | Inr rt \<Rightarrow>
          (case query_movie d movie_id of
             None \<Rightarrow> (Inl (HTTPException 404 ''Movie not found''), d)
           | Some movie \<Rightarrow>
               (case create_rating d rt movie_id user_id of
                  (rating_response, d') \<Rightarrow> (Inr rating_response, d'))))"

record AverageRating =
  average_rating :: real

definition get_average_rating_endpoint :: "db \<Rightarrow> int \<Rightarrow> error + AverageRating" where
  "get_average_rating_endpoint d movie_id =
     (let avg = get_average_rating d movie_id;
          avg' = (case avg of None \<Rightarrow> 0 | Some a \<Rightarrow> a)
      in Inr \<lparr>average_rating = avg'\<rparr>)"

section \<open>Reachable stores\<close>

text \<open>
  The stores the application can be in: the empty store that \<open>create_all\<close> sets up, and
  whatever a request to a mutating endpoint leaves behind, successful or not.
\<close>

inductive reachable :: "db \<Rightarrow> bool" where
  r_init: "reachable empty_db"
| r_create_movie: "reachable d \<Longrightarrow> create_movie_endpoint d body u = (res, d') \<Longrightarrow> reachable d'"
| r_update_movie: "reachable d \<Longrightarrow> update_movie d movie_id body u = (res, d') \<Longrightarrow> reachable d'"
| r_delete_movie: "reachable d \<Longrightarrow> delete_movie_endpoint d movie_id u = Some (dres, d') \<Longrightarrow> reachable d'"
| r_add_comment: "reachable d \<Longrightarrow> add_comment d movie_id cbody u = (cres, d') \<Longrightarrow> reachable d'"
| r_add_nested_comment:
    "reachable d \<Longrightarrow> add_nested_comment d parent_comment_id cbody u = (cres, d') \<Longrightarrow> reachable d'"
| r_delete_comment: "reachable d \<Longrightarrow> delete_comment_endpoint d comment_id u = (sres, d') \<Longrightarrow> reachable d'"
| r_add_rating: "reachable d \<Longrightarrow> add_rating d movie_id rbody u = (rres, d') \<Longrightarrow> reachable d'"

text \<open>
  Well-formed stores: primary keys are unique; a reply's parent is an earlier row of the
  same movie; every comment and every rating belongs to a movie of the store.
\<close>

definition wf_db :: "db \<Rightarrow> bool" where
  "wf_db d \<longleftrightarrow>
     distinct (map m_id (movies d)) \<and>
     distinct (map c_id (comments d)) \<and>
     (\<forall>c \<in> set (comments d). \<forall>p. c_parent_comment_id c = Some p \<longrightarrow>
        p < c_id c \<and> (\<exists>pc \<in> set (comments d). c_id pc = p \<and> c_movie_id pc = c_movie_id c)) \<and>
     (\<forall>c \<in> set (comments d). \<exists>m \<in> set (movies d). m_id m = c_movie_id c) \<and>
     (\<forall>r \<in> set (ratings d). \<exists>m \<in> set (movies d). m_id m = r_movie_id r)"

text \<open>
  The proper descendants of the comment with id \<open>a\<close>: the ids of the rows that reply to
  it, or to one of its descendants.
\<close>

inductive_set descendants :: "comment list \<Rightarrow> int \<Rightarrow> int set" for cs :: "comment list" and a :: int where
  d_child: "c \<in> set cs \<Longrightarrow> c_parent_comment_id c = Some a \<Longrightarrow> c_id c \<in> descendants cs a"
| d_step: "p \<in> descendants cs a \<Longrightarrow> c \<in> set cs \<Longrightarrow> c_parent_comment_id c = Some p
           \<Longrightarrow> c_id c \<in> descendants cs a"

section \<open>An example store\<close>

text \<open>
  Two movies of two users. Movie 1 has three root comments (1, 4 and 5); comment 2
  answers comment 1 and comment 3 answers comment 2. Movie 1 has the ratings 5, 7 and 8.
\<close>

definition example_db :: db where
  "example_db =
     \<lparr>movies =
        [\<lparr>m_id = 1, m_title = ''Alien'', m_description = ''In space'', m_release_date = 722000,
          m_user_id = Some 1\<rparr>,
         \<lparr>m_id = 2, m_title = ''Heat'', m_description = ''In town'', m_release_date = 728000,
          m_user_id = Some 2\<rparr>],
      comments =
        [\<lparr>c_id = 1, c_comment_text = ''Great movie!'', c_movie_id = 1, c_user_id = 1,
          c_parent_comment_id = None\<rparr>,
         \<lparr>c_id = 2, c_comment_text = ''I agree'', c_movie_id = 1, c_user_id = 2,
          c_parent_comment_id = Some 1\<rparr>,
         \<lparr>c_id = 3, c_comment_text = ''So do I'', c_movie_id = 1, c_user_id = 1,
          c_parent_comment_id = Some 2\<rparr>,
         \<lparr>c_id = 4, c_comment_text = ''Too long'', c_movie_id = 1, c_user_id = 2,
          c_parent_comment_id = None\<rparr>,
         \<lparr>c_id = 5, c_comment_text = ''A classic'', c_movie_id = 1, c_user_id = 1,
          c_parent_comment_id = None\<rparr>],
      ratings =
        [\<lparr>r_id = 1, r_rating = 5, r_movie_id = 1, r_user_id = 1\<rparr>,
         \<lparr>r_id = 2, r_rating = 7, r_movie_id = 1, r_user_id = 1\<rparr>,
         \<lparr>r_id = 3, r_rating = 8, r_movie_id = 1, r_user_id = 1\<rparr>]\<rparr>"

section \<open>The cascade and the descendants of a comment\<close>

lemma cascade_superset: "set S \<subseteq> set (cascade cs S)"
proof (induction cs S rule: cascade.induct)
  case (1 cs S)
  show ?case
  proof (cases "replies_to cs S = []")
    case True
    then show ?thesis by (simp add: cascade.simps)
  next
    case False
    with 1 have "set (S @ replies_to cs S) \<subseteq> set (cascade cs (S @ replies_to cs S))" by simp
    with False show ?thesis by (subst cascade.simps) auto
  qed
qed

lemma cascade_closed:
  "c \<in> set cs \<Longrightarrow> c_parent_comment_id c = Some p \<Longrightarrow> p \<in> set (cascade cs S)
   \<Longrightarrow> c_id c \<in> set (cascade cs S)"
proof (induction cs S rule: cascade.induct)
  case (1 cs S)
  show ?case
  proof (cases "replies_to cs S = []")
    case True
    then have eq: "cascade cs S = S" by (simp add: cascade.simps)
    with 1 have pS: "p \<in> set S" by simp
    show ?thesis
    proof (rule ccontr)
      assume "c_id c \<notin> set (cascade cs S)"
      then have "c_id c \<notin> set S" using eq by simp
      then have "c_id c \<in> set (replies_to cs S)"
        using 1(2,3) pS by (auto simp: replies_to_def)
      with True show False by simp
    qed
  next
    case False
    then have eq: "cascade cs S = cascade cs (S @ replies_to cs S)"
      by (subst cascade.simps) simp
    with 1 False show ?thesis by simp
  qed
qed

lemma descendants_trans:
  "x \<in> descendants cs y \<Longrightarrow> y \<in> descendants cs s \<Longrightarrow> x \<in> descendants cs s"
  by (induction rule: descendants.induct) (auto intro: descendants.d_step)

lemma replies_to_descendants:
  "y \<in> set (replies_to cs S) \<Longrightarrow> \<exists>s \<in> set S. y \<in> descendants cs s"
  by (auto simp: replies_to_def split: option.splits intro: descendants.d_child)

lemma cascade_sound:
  "x \<in> set (cascade cs S) \<Longrightarrow> x \<in> set S \<or> (\<exists>s \<in> set S. x \<in> descendants cs s)"
proof (induction cs S rule: cascade.induct)
  case (1 cs S)
  show ?case
  proof (cases "replies_to cs S = []")
    case True
    then have "cascade cs S = S" by (simp add: cascade.simps)
    with 1 show ?thesis by simp
  next
    case False
    then have eq: "cascade cs S = cascade cs (S @ replies_to cs S)"
      by (subst cascade.simps) simp
    with 1 False have
      "x \<in> set (S @ replies_to cs S) \<or> (\<exists>s \<in> set (S @ replies_to cs S). x \<in> descendants cs s)"
      by simp
    then consider "x \<in> set S" | "x \<in> set (replies_to cs S)"
      | s where "s \<in> set S" "x \<in> descendants cs s"
      | s where "s \<in> set (replies_to cs S)" "x \<in> descendants cs s"
      by auto
    then show ?thesis
    proof cases
      case 1 then show ?thesis by simp
    next
      case 2 then show ?thesis using replies_to_descendants by simp
    next
      case 3 then show ?thesis by auto
    next
      case 4
      from 4(1) obtain t where "t \<in> set S" "s \<in> descendants cs t"
        using replies_to_descendants by blast
      with 4(2) show ?thesis using descendants_trans by blast
    qed
  qed
qed

lemma cascade_complete:
  "x \<in> descendants cs s \<Longrightarrow> s \<in> set S \<Longrightarrow> x \<in> set (cascade cs S)"
proof (induction rule: descendants.induct)
  case (d_child c)
  have "s \<in> set (cascade cs S)" using d_child(3) cascade_superset by auto
  then show ?case using cascade_closed [OF d_child(1,2)] by simp
next
  case (d_step p c)
  then show ?case using cascade_closed [OF d_step(2,3)] by simp
qed

lemma set_cascade: "set (cascade cs S) = set S \<union> (\<Union>s \<in> set S. descendants cs s)"
proof (intro set_eqI iffI)
  fix x assume "x \<in> set (cascade cs S)"
  then show "x \<in> set S \<union> (\<Union>s \<in> set S. descendants cs s)"
    using cascade_sound by fastforce
next
  fix x assume "x \<in> set S \<union> (\<Union>s \<in> set S. descendants cs s)"
  then show "x \<in> set (cascade cs S)"
    using cascade_superset cascade_complete by auto
qed


lemma fold_max_ge: "a \<le> fold max ids (a::int)"
  by (induction ids arbitrary: a) (auto intro: order_trans [OF max.cobounded2])

lemma fold_max_mem: "x \<in> set ids \<Longrightarrow> x \<le> fold max ids (a::int)"
proof (induction ids arbitrary: a)
  case Nil
  then show ?case by simp
next
  case (Cons y ys)
  show ?case
  proof (cases "x = y")
    case True
    have "y \<le> max y a" by simp
    also have "\<dots> \<le> fold max ys (max y a)" by (rule fold_max_ge)
    finally show ?thesis using True by simp
  next
    case False
    with Cons show ?thesis by simp
  qed
qed

lemma next_id_fresh: "x \<in> set ids \<Longrightarrow> x < next_id ids"
  using fold_max_mem [of x ids 0] by (simp add: next_id_def)

lemma next_id_notin: "next_id ids \<notin> set ids"
  using next_id_fresh by blast

lemma next_id_positive: "0 < next_id ids"
  using fold_max_ge [of 0 ids] by (simp add: next_id_def)

lemma find_SomeD: "find P xs = Some x \<Longrightarrow> P x \<and> x \<in> set xs"
  by (induction xs) (auto split: if_splits)

lemma find_None: "find P xs = None \<longleftrightarrow> (\<forall>x \<in> set xs. \<not> P x)"
  by (induction xs) auto

section \<open>Well-formed stores are preserved\<close>

lemma wf_dbI:
  assumes "distinct (map m_id (movies d))"
    and "distinct (map c_id (comments d))"
    and "\<And>c p. c \<in> set (comments d) \<Longrightarrow> c_parent_comment_id c = Some p \<Longrightarrow> p < c_id c"
    and "\<And>c p. c \<in> set (comments d) \<Longrightarrow> c_parent_comment_id c = Some p
           \<Longrightarrow> \<exists>pc \<in> set (comments d). c_id pc = p \<and> c_movie_id pc = c_movie_id c"
    and "\<And>c. c \<in> set (comments d) \<Longrightarrow> \<exists>m \<in> set (movies d). m_id m = c_movie_id c"
    and "\<And>r. r \<in> set (ratings d) \<Longrightarrow> \<exists>m \<in> set (movies d). m_id m = r_movie_id r"
  shows "wf_db d"
  unfolding wf_db_def using assms by blast

lemma wf_movies_distinct: "wf_db d \<Longrightarrow> distinct (map m_id (movies d))"
  by (simp add: wf_db_def)

lemma wf_comments_distinct: "wf_db d \<Longrightarrow> distinct (map c_id (comments d))"
  by (simp add: wf_db_def)

lemma wf_parent_less:
  "wf_db d \<Longrightarrow> c \<in> set (comments d) \<Longrightarrow> c_parent_comment_id c = Some p \<Longrightarrow> p < c_id c"
  unfolding wf_db_def by blast

lemma wf_parent_ex:
  "wf_db d \<Longrightarrow> c \<in> set (comments d) \<Longrightarrow> c_parent_comment_id c = Some p
   \<Longrightarrow> \<exists>pc \<in> set (comments d). c_id pc = p \<and> c_movie_id pc = c_movie_id c"
  unfolding wf_db_def by blast

lemma wf_comment_movie:
  "wf_db d \<Longrightarrow> c \<in> set (comments d) \<Longrightarrow> \<exists>m \<in> set (movies d). m_id m = c_movie_id c"
  unfolding wf_db_def by blast

lemma wf_rating_movie:
  "wf_db d \<Longrightarrow> r \<in> set (ratings d) \<Longrightarrow> \<exists>m \<in> set (movies d). m_id m = r_movie_id r"
  unfolding wf_db_def by blast

lemma wf_empty: "wf_db empty_db"
  by (rule wf_dbI) (simp_all add: empty_db_def)


lemma wf_append_movie:
  assumes wf: "wf_db d" and fresh: "m_id nm \<notin> set (map m_id (movies d))"
  shows "wf_db (d\<lparr>movies := movies d @ [nm]\<rparr>)"
proof (rule wf_dbI)
  show "distinct (map m_id (movies (d\<lparr>movies := movies d @ [nm]\<rparr>)))"
    using wf_movies_distinct [OF wf] fresh by simp
  show "distinct (map c_id (comments (d\<lparr>movies := movies d @ [nm]\<rparr>)))"
    using wf_comments_distinct [OF wf] by simp
next
  fix c p
  assume "c \<in> set (comments (d\<lparr>movies := movies d @ [nm]\<rparr>))" "c_parent_comment_id c = Some p"
  then have c: "c \<in> set (comments d)" "c_parent_comment_id c = Some p" by simp_all
  show "p < c_id c" using wf_parent_less [OF wf c] .
  show "\<exists>pc \<in> set (comments (d\<lparr>movies := movies d @ [nm]\<rparr>)). c_id pc = p \<and> c_movie_id pc = c_movie_id c"
    using wf_parent_ex [OF wf c] by simp
next
  fix c assume "c \<in> set (comments (d\<lparr>movies := movies d @ [nm]\<rparr>))"
  then have "c \<in> set (comments d)" by simp
  from wf_comment_movie [OF wf this]
  show "\<exists>m \<in> set (movies (d\<lparr>movies := movies d @ [nm]\<rparr>)). m_id m = c_movie_id c" by auto
next
  fix r assume "r \<in> set (ratings (d\<lparr>movies := movies d @ [nm]\<rparr>))"
  then have "r \<in> set (ratings d)" by simp
  from wf_rating_movie [OF wf this]
  show "\<exists>m \<in> set (movies (d\<lparr>movies := movies d @ [nm]\<rparr>)). m_id m = r_movie_id r" by auto
qed

lemma create_movie_cases:
  assumes "create_movie d mv u = (res, d')"
  shows "d' = d \<or> (\<exists>nm. d' = d\<lparr>movies := movies d @ [nm]\<rparr> \<and> m_id nm = next_id (map m_id (movies d)))"
proof (cases "description mv")
  case None
  with assms show ?thesis by (simp add: create_movie_def)
next
  case (Some desc)
  note desc = this
  show ?thesis
  proof (cases "release_date mv")
    case None
    with assms desc show ?thesis by (simp add: create_movie_def)
  next
    case (Some rd)
    with assms desc show ?thesis by (simp add: create_movie_def Let_def) force
  qed
qed

lemma wf_create_movie:
  assumes "wf_db d" and "create_movie d mv u = (res, d')"
  shows "wf_db d'"
proof -
  from create_movie_cases [OF assms(2)] show ?thesis
  proof
    assume "d' = d" with assms(1) show ?thesis by simp
  next
    assume "\<exists>nm. d' = d\<lparr>movies := movies d @ [nm]\<rparr> \<and> m_id nm = next_id (map m_id (movies d))"
    then obtain nm where d': "d' = d\<lparr>movies := movies d @ [nm]\<rparr>"
      and nm: "m_id nm = next_id (map m_id (movies d))" by blast
    have "m_id nm \<notin> set (map m_id (movies d))" unfolding nm by (rule next_id_notin)
    then show ?thesis unfolding d' by (rule wf_append_movie [OF assms(1)])
  qed
qed

lemma wf_create_movie_endpoint:
  assumes "wf_db d" and "create_movie_endpoint d body u = (res, d')"
  shows "wf_db d'"
proof (cases "validate_Movie body")
  case (Inl e)
  with assms show ?thesis by (simp add: create_movie_endpoint_def)
next
  case (Inr payload)
  with assms have "create_movie d payload u = (res, d')" by (simp add: create_movie_endpoint_def)
  then show ?thesis by (rule wf_create_movie [OF assms(1)])
qed


lemma wf_movies_cong:
  assumes wf: "wf_db d" and ids: "map m_id (movies d') = map m_id (movies d)"
    and c: "comments d' = comments d" and r: "ratings d' = ratings d"
  shows "wf_db d'"
proof -
  have ex: "(\<exists>m \<in> set (movies d'). m_id m = k) \<longleftrightarrow> (\<exists>m \<in> set (movies d). m_id m = k)" for k
  proof -
    have "(\<exists>m \<in> set (movies d'). m_id m = k) \<longleftrightarrow> k \<in> set (map m_id (movies d'))" by auto
    also have "\<dots> \<longleftrightarrow> k \<in> set (map m_id (movies d))" using ids by simp
    also have "\<dots> \<longleftrightarrow> (\<exists>m \<in> set (movies d). m_id m = k)" by auto
    finally show ?thesis .
  qed
  show ?thesis
  proof (rule wf_dbI)
    show "distinct (map m_id (movies d'))" using wf_movies_distinct [OF wf] ids by simp
    show "distinct (map c_id (comments d'))" using wf_comments_distinct [OF wf] c by simp
  next
    fix x p assume "x \<in> set (comments d')" "c_parent_comment_id x = Some p"
    then have x: "x \<in> set (comments d)" "c_parent_comment_id x = Some p" using c by simp_all
    show "p < c_id x" using wf_parent_less [OF wf x] .
    show "\<exists>pc \<in> set (comments d'). c_id pc = p \<and> c_movie_id pc = c_movie_id x"
      using wf_parent_ex [OF wf x] c by simp
  next
    fix x assume "x \<in> set (comments d')"
    then have "x \<in> set (comments d)" using c by simp
    from wf_comment_movie [OF wf this] show "\<exists>m \<in> set (movies d'). m_id m = c_movie_id x"
      using ex by simp
  next
    fix x assume "x \<in> set (ratings d')"
    then have "x \<in> set (ratings d)" using r by simp
    from wf_rating_movie [OF wf this] show "\<exists>m \<in> set (movies d'). m_id m = r_movie_id x"
      using ex by simp
  qed
qed

lemma update_movie_cases:
  assumes "update_movie d movie_id body u = (res, d')"
  shows "d' = d \<or> (\<exists>(mv::movie) mv'. m_id mv' = m_id mv \<and>
           d' = d\<lparr>movies := map (\<lambda>m. if m_id m = m_id mv then mv' else m) (movies d)\<rparr>)"
proof (cases "validate_Movie body")
  case (Inl e)
  with assms show ?thesis by (simp add: update_movie_def)
next
  case (Inr payload)
  note payload = this
  show ?thesis
  proof (cases "find (\<lambda>m. m_id m = movie_id \<and> m_user_id m = Some u) (movies d)")
    case None
    with assms payload show ?thesis by (simp add: update_movie_def)
  next
    case (Some mv)
    let ?mv' = "mv\<lparr>m_title := (if title payload \<noteq> [] then title payload else m_title mv),
                   m_description := (case description payload of None \<Rightarrow> m_description mv
                                     | Some s \<Rightarrow> if s \<noteq> [] then s else m_description mv),
                   m_release_date := (case release_date payload of None \<Rightarrow> m_release_date mv
                                      | Some r \<Rightarrow> r)\<rparr>"
    from assms payload Some
    have "d' = d\<lparr>movies := map (\<lambda>m. if m_id m = m_id mv then ?mv' else m) (movies d)\<rparr>"
      by (simp add: update_movie_def Let_def)
    moreover have "m_id ?mv' = m_id mv" by simp
    ultimately show ?thesis by (intro disjI2 exI [of _ mv] exI [of _ ?mv'] conjI)
  qed
qed

lemma map_replace_ids:
  "m_id mv' = m_id (mv::movie) \<Longrightarrow> map m_id (map (\<lambda>m. if m_id m = m_id mv then mv' else m) ms) = map m_id ms"
  by (induction ms) auto

lemma wf_update_movie:
  assumes "wf_db d" and "update_movie d movie_id body u = (res, d')"
  shows "wf_db d'"
proof -
  from update_movie_cases [OF assms(2)] show ?thesis
  proof
    assume "d' = d" with assms(1) show ?thesis by simp
  next
    assume "\<exists>(mv::movie) mv'. m_id mv' = m_id mv \<and>
           d' = d\<lparr>movies := map (\<lambda>m. if m_id m = m_id mv then mv' else m) (movies d)\<rparr>"
    then obtain mv :: movie and mv' where eq: "m_id mv' = m_id mv"
      and d': "d' = d\<lparr>movies := map (\<lambda>m. if m_id m = m_id mv then mv' else m) (movies d)\<rparr>"
      by blast
    show ?thesis
    proof (rule wf_movies_cong [OF assms(1)])
      show "map m_id (movies d') = map m_id (movies d)"
        unfolding d' using map_replace_ids [OF eq] by simp
    qed (simp_all add: d')
  qed
qed

lemma wf_append_comment:
  assumes wf: "wf_db d" and fresh: "c_id nc \<notin> set (map c_id (comments d))"
    and par: "\<And>p. c_parent_comment_id nc = Some p \<Longrightarrow>
                p < c_id nc \<and> (\<exists>pc \<in> set (comments d). c_id pc = p \<and> c_movie_id pc = c_movie_id nc)"
    and mov: "\<exists>m \<in> set (movies d). m_id m = c_movie_id nc"
  shows "wf_db (d\<lparr>comments := comments d @ [nc]\<rparr>)"
proof (rule wf_dbI)
  show "distinct (map m_id (movies (d\<lparr>comments := comments d @ [nc]\<rparr>)))"
    using wf_movies_distinct [OF wf] by simp
  show "distinct (map c_id (comments (d\<lparr>comments := comments d @ [nc]\<rparr>)))"
    using wf_comments_distinct [OF wf] fresh by simp
next
  fix c p
  assume "c \<in> set (comments (d\<lparr>comments := comments d @ [nc]\<rparr>))" and cp: "c_parent_comment_id c = Some p"
  then have "c \<in> set (comments d) \<or> c = nc" by auto
  then have "p < c_id c \<and> (\<exists>pc \<in> set (comments d). c_id pc = p \<and> c_movie_id pc = c_movie_id c)"
  proof
    assume "c \<in> set (comments d)"
    then show ?thesis using wf_parent_less [OF wf _ cp] wf_parent_ex [OF wf _ cp] by simp
  next
    assume "c = nc" then show ?thesis using par cp by simp
  qed
  then show "p < c_id c"
    and "\<exists>pc \<in> set (comments (d\<lparr>comments := comments d @ [nc]\<rparr>)). c_id pc = p \<and> c_movie_id pc = c_movie_id c"
    by auto
next
  fix c assume "c \<in> set (comments (d\<lparr>comments := comments d @ [nc]\<rparr>))"
  then have "c \<in> set (comments d) \<or> c = nc" by auto
  then show "\<exists>m \<in> set (movies (d\<lparr>comments := comments d @ [nc]\<rparr>)). m_id m = c_movie_id c"
    using wf_comment_movie [OF wf] mov by auto
next
  fix r assume "r \<in> set (ratings (d\<lparr>comments := comments d @ [nc]\<rparr>))"
  then have "r \<in> set (ratings d)" by simp
  from wf_rating_movie [OF wf this]
  show "\<exists>m \<in> set (movies (d\<lparr>comments := comments d @ [nc]\<rparr>)). m_id m = r_movie_id r" by simp
qed


lemma create_comment_cases:
  assumes "create_comment d cm u movie_id = (res, d')"
  shows "(d' = d \<and> (\<exists>e. res = Inl e)) \<or>
         (\<exists>nc. res = Inr nc \<and> d' = d\<lparr>comments := comments d @ [nc]\<rparr> \<and>
               c_id nc = next_id (map c_id (comments d)) \<and> c_parent_comment_id nc = None \<and>
               c_movie_id nc = movie_id \<and> c_user_id nc = u \<and>
               (\<exists>m \<in> set (movies d). m_id m = movie_id))"
proof (cases "query_movie d movie_id")
  case None
  with assms show ?thesis by (auto simp: create_comment_def)
next
  case (Some mv)
  then have "m_id mv = movie_id \<and> mv \<in> set (movies d)"
    unfolding query_movie_def by (rule find_SomeD)
  then have "\<exists>m \<in> set (movies d). m_id m = movie_id" by blast
  with assms Some show ?thesis by (simp add: create_comment_def Let_def) force
qed

lemma wf_create_comment:
  assumes wf: "wf_db d" and "create_comment d cm u movie_id = (res, d')"
  shows "wf_db d'"
proof -
  from create_comment_cases [OF assms(2)] show ?thesis
  proof
    assume "d' = d \<and> (\<exists>e. res = Inl e)" with wf show ?thesis by simp
  next
    assume "\<exists>nc. res = Inr nc \<and> d' = d\<lparr>comments := comments d @ [nc]\<rparr> \<and>
               c_id nc = next_id (map c_id (comments d)) \<and> c_parent_comment_id nc = None \<and>
               c_movie_id nc = movie_id \<and> c_user_id nc = u \<and>
               (\<exists>m \<in> set (movies d). m_id m = movie_id)"
    then obtain nc where d': "d' = d\<lparr>comments := comments d @ [nc]\<rparr>"
      and id: "c_id nc = next_id (map c_id (comments d))"
      and par: "c_parent_comment_id nc = None"
      and mov: "c_movie_id nc = movie_id" "\<exists>m \<in> set (movies d). m_id m = movie_id"
      by blast
    show ?thesis unfolding d'
    proof (rule wf_append_comment [OF wf])
      show "c_id nc \<notin> set (map c_id (comments d))" unfolding id by (rule next_id_notin)
    qed (use par mov in simp_all)
  qed
qed

lemma wf_add_comment:
  assumes wf: "wf_db d" and "add_comment d movie_id body u = (res, d')"
  shows "wf_db d'"
proof (cases "validate_CommentCreate body")
  case (Inl e)
  with assms show ?thesis by (simp add: add_comment_def)
next
  case (Inr cm)
  note cm = this
  show ?thesis
  proof (cases "query_movie d movie_id")
    case None
    with assms cm show ?thesis by (simp add: add_comment_def)
  next
    case (Some mv)
    obtain r0 d0 where c: "create_comment d cm u movie_id = (r0, d0)" by (cases "create_comment d cm u movie_id")
    have "d' = d0" using assms(2) cm Some c
      by (auto simp: add_comment_def split: sum.splits error.splits)
    with wf_create_comment [OF wf c] show ?thesis by simp
  qed
qed

lemma create_nested_comment_cases:
  assumes "create_nested_comment d cm pid u = (res, d')"
  shows "(get_comment d pid = None \<and> d' = d \<and> res = Inl (ValueError ''Parent comment does not exist'')) \<or>
         (\<exists>nc pc. get_comment d pid = Some pc \<and> res = Inr nc \<and>
               d' = d\<lparr>comments := comments d @ [nc]\<rparr> \<and>
               c_id nc = next_id (map c_id (comments d)) \<and> c_parent_comment_id nc = Some pid \<and>
               c_movie_id nc = c_movie_id pc \<and> c_user_id nc = u \<and> c_comment_text nc = comment_text cm)"
proof (cases "find (\<lambda>c. c_id c = pid) (comments d)")
  case None
  with assms show ?thesis by (simp add: create_nested_comment_def get_comment_def)
next
  case (Some pc)
  with assms show ?thesis by (simp add: create_nested_comment_def get_comment_def Let_def) force
qed

lemma get_comment_SomeD: "get_comment d cid = Some c \<Longrightarrow> c_id c = cid \<and> c \<in> set (comments d)"
  unfolding get_comment_def by (rule find_SomeD)

lemma wf_create_nested_comment:
  assumes wf: "wf_db d" and "create_nested_comment d cm pid u = (res, d')"
  shows "wf_db d'"
proof -
  from create_nested_comment_cases [OF assms(2)] show ?thesis
  proof
    assume "get_comment d pid = None \<and> d' = d \<and> res = Inl (ValueError ''Parent comment does not exist'')"
    with wf show ?thesis by simp
  next
    assume "\<exists>nc pc. get_comment d pid = Some pc \<and> res = Inr nc \<and>
               d' = d\<lparr>comments := comments d @ [nc]\<rparr> \<and>
               c_id nc = next_id (map c_id (comments d)) \<and> c_parent_comment_id nc = Some pid \<and>
               c_movie_id nc = c_movie_id pc \<and> c_user_id nc = u \<and> c_comment_text nc = comment_text cm"
    then obtain nc pc where pc: "get_comment d pid = Some pc"
      and d': "d' = d\<lparr>comments := comments d @ [nc]\<rparr>"
      and id: "c_id nc = next_id (map c_id (comments d))"
      and par: "c_parent_comment_id nc = Some pid"
      and mov: "c_movie_id nc = c_movie_id pc"
      by blast
    from get_comment_SomeD [OF pc] have pcin: "pc \<in> set (comments d)" and pcid: "c_id pc = pid" by simp_all
    show ?thesis unfolding d'
    proof (rule wf_append_comment [OF wf])
      show "c_id nc \<notin> set (map c_id (comments d))" unfolding id by (rule next_id_notin)
    next
      fix p assume "c_parent_comment_id nc = Some p"
      with par have p: "p = pid" by simp
      have "pid \<in> set (map c_id (comments d))" using pcin pcid by force
      then have "pid < c_id nc" unfolding id by (rule next_id_fresh)
      then show "p < c_id nc \<and> (\<exists>pc \<in> set (comments d). c_id pc = p \<and> c_movie_id pc = c_movie_id nc)"
        using p pcin pcid mov by auto
    next
      show "\<exists>m \<in> set (movies d). m_id m = c_movie_id nc"
        using wf_comment_movie [OF wf pcin] mov by simp
    qed
  qed
qed

lemma wf_add_nested_comment:
  assumes wf: "wf_db d" and "add_nested_comment d pid body u = (res, d')"
  shows "wf_db d'"
proof (cases "validate_CommentCreate body")
  case (Inl e)
  with assms show ?thesis by (simp add: add_nested_comment_def)
next
  case (Inr cm)
  obtain r0 d0 where c: "create_nested_comment d cm pid u = (r0, d0)"
    by (cases "create_nested_comment d cm pid u")
  have "d' = d0" using assms(2) Inr c
    by (auto simp: add_nested_comment_def split: sum.splits error.splits)
  with wf_create_nested_comment [OF wf c] show ?thesis by simp
qed

lemma wf_append_rating:
  assumes wf: "wf_db d" and mov: "\<exists>m \<in> set (movies d). m_id m = r_movie_id nr"
  shows "wf_db (d\<lparr>ratings := ratings d @ [nr]\<rparr>)"
proof (rule wf_dbI)
  show "distinct (map m_id (movies (d\<lparr>ratings := ratings d @ [nr]\<rparr>)))"
    using wf_movies_distinct [OF wf] by simp
  show "distinct (map c_id (comments (d\<lparr>ratings := ratings d @ [nr]\<rparr>)))"
    using wf_comments_distinct [OF wf] by simp
next
  fix c p
  assume "c \<in> set (comments (d\<lparr>ratings := ratings d @ [nr]\<rparr>))" "c_parent_comment_id c = Some p"
  then have c: "c \<in> set (comments d)" "c_parent_comment_id c = Some p" by simp_all
  show "p < c_id c" using wf_parent_less [OF wf c] .
  show "\<exists>pc \<in> set (comments (d\<lparr>ratings := ratings d @ [nr]\<rparr>)). c_id pc = p \<and> c_movie_id pc = c_movie_id c"
    using wf_parent_ex [OF wf c] by simp
next
  fix c assume "c \<in> set (comments (d\<lparr>ratings := ratings d @ [nr]\<rparr>))"
  then have "c \<in> set (comments d)" by simp
  from wf_comment_movie [OF wf this]
  show "\<exists>m \<in> set (movies (d\<lparr>ratings := ratings d @ [nr]\<rparr>)). m_id m = c_movie_id c" by simp
next
  fix r assume "r \<in> set (ratings (d\<lparr>ratings := ratings d @ [nr]\<rparr>))"
  then have "r \<in> set (ratings d) \<or> r = nr" by auto
  then show "\<exists>m \<in> set (movies (d\<lparr>ratings := ratings d @ [nr]\<rparr>)). m_id m = r_movie_id r"
    using wf_rating_movie [OF wf] mov by auto
qed

lemma query_movie_SomeD: "query_movie d k = Some m \<Longrightarrow> m_id m = k \<and> m \<in> set (movies d)"
  unfolding query_movie_def by (rule find_SomeD)

lemma wf_add_rating:
  assumes wf: "wf_db d" and "add_rating d movie_id v u = (res, d')"
  shows "wf_db d'"
proof (cases "validate_RatingCreate v")
  case (Inl e)
  with assms show ?thesis by (simp add: add_rating_def)
next
  case (Inr rt)
  note rt = this
  show ?thesis
  proof (cases "query_movie d movie_id")
    case None
    with assms rt show ?thesis by (simp add: add_rating_def)
  next
    case (Some mv)
    let ?nr = "\<lparr>r_id = next_id (map r_id (ratings d)), r_rating = rating rt,
                r_movie_id = movie_id, r_user_id = u\<rparr>"
    have d': "d' = d\<lparr>ratings := ratings d @ [?nr]\<rparr>"
      using assms(2) rt Some by (simp add: add_rating_def create_rating_def Let_def)
    have "\<exists>m \<in> set (movies d). m_id m = r_movie_id ?nr"
      using query_movie_SomeD [OF Some] by auto
    then show ?thesis unfolding d' by (rule wf_append_rating [OF wf])
  qed
qed

lemma wf_filter_comments:
  assumes wf: "wf_db d"
    and closed: "\<And>c pc p. c \<in> set (comments d) \<Longrightarrow> K c \<Longrightarrow> c_parent_comment_id c = Some p
                  \<Longrightarrow> pc \<in> set (comments d) \<Longrightarrow> c_id pc = p \<Longrightarrow> K pc"
  shows "wf_db (d\<lparr>comments := filter K (comments d)\<rparr>)"
proof (rule wf_dbI)
  show "distinct (map m_id (movies (d\<lparr>comments := filter K (comments d)\<rparr>)))"
    using wf_movies_distinct [OF wf] by simp
  show "distinct (map c_id (comments (d\<lparr>comments := filter K (comments d)\<rparr>)))"
    using wf_comments_distinct [OF wf] by (simp add: distinct_map_filter)
next
  fix c p
  assume "c \<in> set (comments (d\<lparr>comments := filter K (comments d)\<rparr>))" and cp: "c_parent_comment_id c = Some p"
  then have c: "c \<in> set (comments d)" and k: "K c" by simp_all
  show "p < c_id c" using wf_parent_less [OF wf c cp] .
  from wf_parent_ex [OF wf c cp] obtain pc where
    pc: "pc \<in> set (comments d)" "c_id pc = p" "c_movie_id pc = c_movie_id c" by blast
  have "K pc" using closed [OF c k cp pc(1,2)] .
  then show "\<exists>pc \<in> set (comments (d\<lparr>comments := filter K (comments d)\<rparr>)).
               c_id pc = p \<and> c_movie_id pc = c_movie_id c"
    using pc by auto
next
  fix c assume "c \<in> set (comments (d\<lparr>comments := filter K (comments d)\<rparr>))"
  then have "c \<in> set (comments d)" by simp
  from wf_comment_movie [OF wf this]
  show "\<exists>m \<in> set (movies (d\<lparr>comments := filter K (comments d)\<rparr>)). m_id m = c_movie_id c" by simp
next
  fix r assume "r \<in> set (ratings (d\<lparr>comments := filter K (comments d)\<rparr>))"
  then have "r \<in> set (ratings d)" by simp
  from wf_rating_movie [OF wf this]
  show "\<exists>m \<in> set (movies (d\<lparr>comments := filter K (comments d)\<rparr>)). m_id m = r_movie_id r" by simp
qed

lemma wf_filter_cascade:
  assumes wf: "wf_db d"
  shows "wf_db (d\<lparr>comments := filter (\<lambda>x. c_id x \<notin> set (cascade (comments d) S)) (comments d)\<rparr>)"
proof (rule wf_filter_comments [OF wf])
  fix c pc p
  assume c: "c \<in> set (comments d)" and k: "c_id c \<notin> set (cascade (comments d) S)"
    and cp: "c_parent_comment_id c = Some p" and "c_id pc = p"
  show "c_id pc \<notin> set (cascade (comments d) S)"
  proof
    assume "c_id pc \<in> set (cascade (comments d) S)"
    then have "p \<in> set (cascade (comments d) S)" using \<open>c_id pc = p\<close> by simp
    from cascade_closed [OF c cp this] k show False by simp
  qed
qed

lemma wf_session_delete_comment: "wf_db d \<Longrightarrow> wf_db (session_delete_comment d c)"
  unfolding session_delete_comment_def by (rule wf_filter_cascade)

lemma wf_delete_comment: "wf_db d \<Longrightarrow> wf_db (delete_comment d cid)"
  by (cases "get_comment d cid") (simp_all add: delete_comment_def wf_session_delete_comment)

lemma wf_delete_comment_endpoint:
  assumes wf: "wf_db d" and "delete_comment_endpoint d cid u = (res, d')"
  shows "wf_db d'"
proof -
  from assms(2) have "d' = d \<or> d' = delete_comment d cid"
    by (auto simp: delete_comment_endpoint_def split: option.splits if_splits)
  then show ?thesis using wf wf_delete_comment by auto
qed

lemma wf_remove_movie:
  assumes wf: "wf_db d" and none: "\<And>c. c \<in> set (comments d) \<Longrightarrow> c_movie_id c \<noteq> k"
  shows "wf_db \<lparr>movies = filter (\<lambda>x. m_id x \<noteq> k) (movies d), comments = comments d,
                 ratings = filter (\<lambda>r. r_movie_id r \<noteq> k) (ratings d)\<rparr>"
proof (rule wf_dbI)
  show "distinct (map m_id (movies \<lparr>movies = filter (\<lambda>x. m_id x \<noteq> k) (movies d), comments = comments d,
                 ratings = filter (\<lambda>r. r_movie_id r \<noteq> k) (ratings d)\<rparr>))"
    using wf_movies_distinct [OF wf] by (simp add: distinct_map_filter)
  show "distinct (map c_id (comments \<lparr>movies = filter (\<lambda>x. m_id x \<noteq> k) (movies d), comments = comments d,
                 ratings = filter (\<lambda>r. r_movie_id r \<noteq> k) (ratings d)\<rparr>))"
    using wf_comments_distinct [OF wf] by simp
next
  fix c p
  assume "c \<in> set (comments \<lparr>movies = filter (\<lambda>x. m_id x \<noteq> k) (movies d), comments = comments d,
                 ratings = filter (\<lambda>r. r_movie_id r \<noteq> k) (ratings d)\<rparr>)"
    and cp: "c_parent_comment_id c = Some p"
  then have c: "c \<in> set (comments d)" by simp
  show "p < c_id c" using wf_parent_less [OF wf c cp] .
  show "\<exists>pc \<in> set (comments \<lparr>movies = filter (\<lambda>x. m_id x \<noteq> k) (movies d), comments = comments d,
                 ratings = filter (\<lambda>r. r_movie_id r \<noteq> k) (ratings d)\<rparr>).
          c_id pc = p \<and> c_movie_id pc = c_movie_id c"
    using wf_parent_ex [OF wf c cp] by simp
next
  fix c
  assume "c \<in> set (comments \<lparr>movies = filter (\<lambda>x. m_id x \<noteq> k) (movies d), comments = comments d,
                 ratings = filter (\<lambda>r. r_movie_id r \<noteq> k) (ratings d)\<rparr>)"
  then have c: "c \<in> set (comments d)" by simp
  from wf_comment_movie [OF wf c] obtain m where "m \<in> set (movies d)" "m_id m = c_movie_id c" by blast
  then show "\<exists>m \<in> set (movies \<lparr>movies = filter (\<lambda>x. m_id x \<noteq> k) (movies d), comments = comments d,
                 ratings = filter (\<lambda>r. r_movie_id r \<noteq> k) (ratings d)\<rparr>). m_id m = c_movie_id c"
    using none [OF c] by auto
next
  fix r
  assume "r \<in> set (ratings \<lparr>movies = filter (\<lambda>x. m_id x \<noteq> k) (movies d), comments = comments d,
                 ratings = filter (\<lambda>r. r_movie_id r \<noteq> k) (ratings d)\<rparr>)"
  then have r: "r \<in> set (ratings d)" "r_movie_id r \<noteq> k" by simp_all
  from wf_rating_movie [OF wf r(1)] obtain m where "m \<in> set (movies d)" "m_id m = r_movie_id r" by blast
  then show "\<exists>m \<in> set (movies \<lparr>movies = filter (\<lambda>x. m_id x \<noteq> k) (movies d), comments = comments d,
                 ratings = filter (\<lambda>r. r_movie_id r \<noteq> k) (ratings d)\<rparr>). m_id m = r_movie_id r"
    using r(2) by auto
qed

lemma session_delete_movie_comments:
  "c \<in> set (comments (session_delete_movie d m)) \<Longrightarrow> c_movie_id c \<noteq> m_id m"
proof
  assume c: "c \<in> set (comments (session_delete_movie d m))" and eq: "c_movie_id c = m_id m"
  let ?S = "map c_id (filter (\<lambda>c. c_movie_id c = m_id m) (comments d))"
  from c have cin: "c \<in> set (comments d)" and notin: "c_id c \<notin> set (cascade (comments d) ?S)"
    by (simp_all add: session_delete_movie_def)
  have "c_id c \<in> set ?S" using cin eq by auto
  then have "c_id c \<in> set (cascade (comments d) ?S)" using cascade_superset by blast
  with notin show False by simp
qed

lemma wf_session_delete_movie:
  assumes wf: "wf_db d"
  shows "wf_db (session_delete_movie d m)"
proof -
  let ?S = "map c_id (filter (\<lambda>c. c_movie_id c = m_id m) (comments d))"
  let ?d1 = "d\<lparr>comments := filter (\<lambda>x. c_id x \<notin> set (cascade (comments d) ?S)) (comments d)\<rparr>"
  have wf1: "wf_db ?d1" by (rule wf_filter_cascade [OF wf])
  have eq: "session_delete_movie d m =
        \<lparr>movies = filter (\<lambda>x. m_id x \<noteq> m_id m) (movies ?d1), comments = comments ?d1,
         ratings = filter (\<lambda>r. r_movie_id r \<noteq> m_id m) (ratings ?d1)\<rparr>"
    by (simp add: session_delete_movie_def)
  have none: "\<And>c. c \<in> set (comments ?d1) \<Longrightarrow> c_movie_id c \<noteq> m_id m"
  proof -
    fix c assume "c \<in> set (comments ?d1)"
    then have "c \<in> set (comments (session_delete_movie d m))" by (simp add: session_delete_movie_def)
    then show "c_movie_id c \<noteq> m_id m" by (rule session_delete_movie_comments)
  qed
  show ?thesis unfolding eq by (rule wf_remove_movie [OF wf1 none])
qed

lemma delete_movie_cases:
  assumes "delete_movie d movie_id u = Some (r, d')"
  shows "(r = None \<and> d' = d) \<or> (\<exists>m. r = Some m \<and> d' = session_delete_movie d m \<and>
            m \<in> set (movies d) \<and> m_id m = movie_id)"
proof -
  let ?q = "filter (\<lambda>m. m_id m = movie_id) (movies d)"
  let ?q' = "if truthy (Some u) then filter (\<lambda>m. m_user_id m = Some u) ?q else ?q"
  show ?thesis
  proof (cases ?q')
    case Nil
    then have "get_movie d movie_id (Some u) = Some None" by (simp add: get_movie_def Let_def)
    with assms show ?thesis by (simp add: delete_movie_def)
  next
    case (Cons m rest)
    then have "m \<in> set ?q'" by simp
    then have m: "m \<in> set (movies d)" "m_id m = movie_id" by (auto split: if_splits)
    from Cons have g: "get_movie d movie_id (Some u) =
        map_option (\<lambda>loaded. Some (m, loaded)) (load_comments_with_replies d (m_id m))"
      by (simp add: get_movie_def Let_def)
    show ?thesis
    proof (cases "load_comments_with_replies d (m_id m)")
      case None
      with g assms show ?thesis by (simp add: delete_movie_def)
    next
      case (Some loaded)
      with g assms have "r = Some m \<and> d' = session_delete_movie d m" by (auto simp: delete_movie_def)
      with m show ?thesis by blast
    qed
  qed
qed

lemma wf_delete_movie:
  assumes "wf_db d" and "delete_movie d movie_id u = Some (r, d')"
  shows "wf_db d'"
  using delete_movie_cases [OF assms(2)] assms(1) wf_session_delete_movie by auto

lemma wf_delete_movie_endpoint:
  assumes wf: "wf_db d" and "delete_movie_endpoint d movie_id u = Some (res, d')"
  shows "wf_db d'"
proof -
  from assms(2) obtain r where "delete_movie d movie_id u = Some (r, d')"
    by (auto simp: delete_movie_endpoint_def split: option.splits prod.splits)
  then show ?thesis by (rule wf_delete_movie [OF wf])
qed

lemma reachable_wf: "reachable d \<Longrightarrow> wf_db d"
proof (induction rule: reachable.induct)
  case r_init
  show ?case by (rule wf_empty)
next
  case (r_create_movie d body u res d')
  then show ?case using wf_create_movie_endpoint by blast
next
  case (r_update_movie d movie_id body u res d')
  then show ?case using wf_update_movie by blast
next
  case (r_delete_movie d movie_id u dres d')
  then show ?case using wf_delete_movie_endpoint by blast
next
  case (r_add_comment d movie_id cbody u cres d')
  then show ?case using wf_add_comment by blast
next
  case (r_add_nested_comment d parent_comment_id cbody u cres d')
  then show ?case using wf_add_nested_comment by blast
next
  case (r_delete_comment d comment_id u sres d')
  then show ?case using wf_delete_comment_endpoint by blast
next
  case (r_add_rating d movie_id rbody u rres d')
  then show ?case using wf_add_rating by blast
qed

section \<open>Loading a comment's replies\<close>

lemma those_map_iff:
  "those (map f xs) = Some ys \<longleftrightarrow> list_all2 (\<lambda>x y. f x = Some y) xs ys"
proof (induction xs arbitrary: ys)
  case Nil
  show ?case by auto
next
  case (Cons x xs)
  show ?case
  proof (cases "f x")
    case None
    then show ?thesis by (auto simp: list_all2_Cons1)
  next
    case (Some y)
    then show ?thesis using Cons by (auto simp: list_all2_Cons1)
  qed
qed

lemma filter_length_less:
  assumes "\<And>x. P x \<Longrightarrow> Q x" and "r \<in> set xs" and "Q r" and "\<not> P r"
  shows "length (filter P xs) < length (filter Q xs)"
  using assms(2)
proof (induction xs)
  case Nil
  then show ?case by simp
next
  case (Cons x xs)
  have le: "length (filter P xs) \<le> length (filter Q xs)"
    by (induction xs) (use assms(1) in auto)
  show ?case
  proof (cases "r = x")
    case True
    then show ?thesis using le assms(3,4) by simp
  next
    case False
    with Cons have "length (filter P xs) < length (filter Q xs)" by simp
    then show ?thesis using assms(1) by auto
  qed
qed

lemma load_replies_total:
  assumes less: "\<And>x p. x \<in> set cs \<Longrightarrow> c_parent_comment_id x = Some p \<Longrightarrow> p < c_id x"
  shows "length (filter (\<lambda>x. c_id c < c_id x) cs) < n \<Longrightarrow> \<exists>ts. load_replies n cs c = Some ts"
proof (induction n arbitrary: c)
  case 0
  then show ?case by simp
next
  case (Suc n)
  let ?kids = "filter (\<lambda>r. c_parent_comment_id r = Some (c_id c)) cs"
  let ?f = "\<lambda>reply. map_option (CommentNode reply) (load_replies n cs reply)"
  have "\<exists>y. ?f r = Some y" if r: "r \<in> set ?kids" for r
  proof -
    from r have rin: "r \<in> set cs" and rp: "c_parent_comment_id r = Some (c_id c)" by simp_all
    have lt: "c_id c < c_id r" using less [OF rin rp] .
    have "length (filter (\<lambda>x. c_id r < c_id x) cs) < length (filter (\<lambda>x. c_id c < c_id x) cs)"
      by (rule filter_length_less [where r = r]) (use lt rin in auto)
    with Suc.prems have "length (filter (\<lambda>x. c_id r < c_id x) cs) < n" by simp
    from Suc.IH [OF this] show ?thesis by auto
  qed
  then have "\<forall>r \<in> set ?kids. ?f r = Some (the (?f r))" by fastforce
  then have "list_all2 (\<lambda>x y. ?f x = Some y) ?kids (map (\<lambda>r. the (?f r)) ?kids)"
    unfolding list_all2_map2 list_all2_same .
  then have "those (map ?f ?kids) = Some (map (\<lambda>r. the (?f r)) ?kids)"
    by (simp only: those_map_iff)
  then show ?case by simp
qed

lemma load_replies_full:
  "load_replies n cs c = Some ts \<Longrightarrow> full_tree cs (CommentNode c ts)"
proof (induction n arbitrary: c ts)
  case 0
  then show ?case by simp
next
  case (Suc n)
  let ?kids = "filter (\<lambda>r. c_parent_comment_id r = Some (c_id c)) cs"
  let ?f = "\<lambda>reply. map_option (CommentNode reply) (load_replies n cs reply)"
  from Suc.prems have all2: "list_all2 (\<lambda>x y. ?f x = Some y) ?kids ts"
    by (simp add: those_map_iff)
  have each: "list_all2 (\<lambda>x t. root_of t = x \<and> full_tree cs t) ?kids ts"
  proof (rule list_all2_mono [OF all2])
    fix x t assume "?f x = Some t"
    then obtain us where "load_replies n cs x = Some us" "t = CommentNode x us" by auto
    with Suc.IH show "root_of t = x \<and> full_tree cs t" by simp
  qed
  have roots: "map root_of ts = ?kids"
    using each by (induction rule: list_all2_induct) auto
  have full: "\<forall>t \<in> set ts. full_tree cs t"
    using each by (induction rule: list_all2_induct) auto
  show ?case using roots full by simp
qed

lemma load_replies_more_fuel:
  "load_replies n cs c = Some ts \<Longrightarrow> load_replies (n + k) cs c = Some ts"
proof (induction n arbitrary: c ts)
  case 0
  then show ?case by simp
next
  case (Suc n)
  let ?kids = "filter (\<lambda>r. c_parent_comment_id r = Some (c_id c)) cs"
  let ?f = "\<lambda>reply. map_option (CommentNode reply) (load_replies n cs reply)"
  let ?g = "\<lambda>reply. map_option (CommentNode reply) (load_replies (n + k) cs reply)"
  from Suc.prems have all2: "list_all2 (\<lambda>x y. ?f x = Some y) ?kids ts"
    by (simp add: those_map_iff)
  have "list_all2 (\<lambda>x y. ?g x = Some y) ?kids ts"
  proof (rule list_all2_mono [OF all2])
    fix x t assume "?f x = Some t"
    then obtain us where "load_replies n cs x = Some us" "t = CommentNode x us" by auto
    with Suc.IH show "?g x = Some t" by simp
  qed
  then have "those (map ?g ?kids) = Some ts" by (simp only: those_map_iff)
  then show ?case by simp
qed

lemma root_in_tree_ids: "c_id (root_of t) \<in> set (tree_ids t)"
  by (cases t) simp

lemma full_tree_child:
  assumes "full_tree cs (CommentNode c ts)" and "t \<in> set ts"
  shows "root_of t \<in> set cs \<and> c_parent_comment_id (root_of t) = Some (c_id c) \<and> full_tree cs t"
proof -
  from assms(1) have m: "map root_of ts = filter (\<lambda>r. c_parent_comment_id r = Some (c_id c)) cs"
    and f: "\<forall>t \<in> set ts. full_tree cs t" by simp_all
  have "root_of t \<in> set (map root_of ts)" using assms(2) by simp
  then have "root_of t \<in> set (filter (\<lambda>r. c_parent_comment_id r = Some (c_id c)) cs)"
    unfolding m .
  then show ?thesis using f assms(2) by simp
qed

lemma full_tree_ids_sub:
  "full_tree cs t \<Longrightarrow> x \<in> set (tree_ids t)
   \<Longrightarrow> x = c_id (root_of t) \<or> x \<in> descendants cs (c_id (root_of t))"
proof (induction t arbitrary: x)
  case (CommentNode c ts)
  show ?case
  proof (cases "x = c_id c")
    case True
    then show ?thesis by simp
  next
    case False
    with CommentNode.prems(2) obtain t where t: "t \<in> set ts" and x: "x \<in> set (tree_ids t)" by auto
    from full_tree_child [OF CommentNode.prems(1) t]
    have rin: "root_of t \<in> set cs" and rp: "c_parent_comment_id (root_of t) = Some (c_id c)"
      and ft: "full_tree cs t" by simp_all
    have rd: "c_id (root_of t) \<in> descendants cs (c_id c)"
      using rin rp by (rule descendants.d_child)
    from CommentNode.IH [OF t ft x] have "x \<in> descendants cs (c_id c)"
    proof
      assume "x = c_id (root_of t)" with rd show ?thesis by simp
    next
      assume "x \<in> descendants cs (c_id (root_of t))"
      then show ?thesis using rd by (rule descendants_trans)
    qed
    then show ?thesis by simp
  qed
qed

lemma full_tree_closed:
  "full_tree cs t \<Longrightarrow> p \<in> set (tree_ids t) \<Longrightarrow> c' \<in> set cs \<Longrightarrow> c_parent_comment_id c' = Some p
   \<Longrightarrow> c_id c' \<in> set (tree_ids t)"
proof (induction t)
  case (CommentNode c ts)
  show ?case
  proof (cases "p = c_id c")
    case True
    from CommentNode.prems(1) have "map root_of ts = filter (\<lambda>r. c_parent_comment_id r = Some (c_id c)) cs"
      by simp
    moreover have "c' \<in> set (filter (\<lambda>r. c_parent_comment_id r = Some (c_id c)) cs)"
      using CommentNode.prems(3,4) True by simp
    ultimately have "c' \<in> set (map root_of ts)" by simp
    then obtain t where t: "t \<in> set ts" "root_of t = c'" by auto
    have "c_id c' \<in> set (tree_ids t)" using root_in_tree_ids [of t] t(2) by simp
    with t(1) show ?thesis by auto
  next
    case False
    with CommentNode.prems(2) obtain t where t: "t \<in> set ts" and p: "p \<in> set (tree_ids t)" by auto
    from full_tree_child [OF CommentNode.prems(1) t] have ft: "full_tree cs t" by simp
    from CommentNode.IH [OF t ft p CommentNode.prems(3,4)] t show ?thesis by auto
  qed
qed

lemma full_tree_ids_sup:
  assumes ft: "full_tree cs t"
  shows "x \<in> descendants cs (c_id (root_of t)) \<Longrightarrow> x \<in> set (tree_ids t)"
proof (induction rule: descendants.induct)
  case (d_child c)
  show ?case by (rule full_tree_closed [OF ft root_in_tree_ids d_child(1,2)])
next
  case (d_step p c)
  show ?case by (rule full_tree_closed [OF ft d_step(4) d_step(2,3)])
qed

lemma full_tree_ids:
  "full_tree cs t \<Longrightarrow> set (tree_ids t) = insert (c_id (root_of t)) (descendants cs (c_id (root_of t)))"
  using full_tree_ids_sub full_tree_ids_sup root_in_tree_ids by blast

section \<open>The example store is reachable\<close>

lemma reachable_example_db: "reachable example_db"
proof -
  let ?m1 = "\<lparr>m_id = 1, m_title = ''Alien'', m_description = ''In space'', m_release_date = 722000,
          m_user_id = Some 1\<rparr>"
  let ?m2 = "\<lparr>m_id = 2, m_title = ''Heat'', m_description = ''In town'', m_release_date = 728000,
          m_user_id = Some 2\<rparr>"
  let ?c1 = "\<lparr>c_id = 1, c_comment_text = ''Great movie!'', c_movie_id = 1, c_user_id = 1,
          c_parent_comment_id = None\<rparr>"
  let ?c2 = "\<lparr>c_id = 2, c_comment_text = ''I agree'', c_movie_id = 1, c_user_id = 2,
          c_parent_comment_id = Some 1\<rparr>"
  let ?c3 = "\<lparr>c_id = 3, c_comment_text = ''So do I'', c_movie_id = 1, c_user_id = 1,
          c_parent_comment_id = Some 2\<rparr>"
  let ?c4 = "\<lparr>c_id = 4, c_comment_text = ''Too long'', c_movie_id = 1, c_user_id = 2,
          c_parent_comment_id = None\<rparr>"
  let ?c5 = "\<lparr>c_id = 5, c_comment_text = ''A classic'', c_movie_id = 1, c_user_id = 1,
          c_parent_comment_id = None\<rparr>"
  let ?r1 = "\<lparr>r_id = 1, r_rating = 5, r_movie_id = 1, r_user_id = 1\<rparr>"
  let ?r2 = "\<lparr>r_id = 2, r_rating = 7, r_movie_id = 1, r_user_id = 1\<rparr>"
  let ?r3 = "\<lparr>r_id = 3, r_rating = 8, r_movie_id = 1, r_user_id = 1\<rparr>"
  let ?s1 = "\<lparr>movies = [?m1], comments = [], ratings = []\<rparr>"
  let ?s2 = "\<lparr>movies = [?m1, ?m2], comments = [], ratings = []\<rparr>"
  let ?s3 = "\<lparr>movies = [?m1, ?m2], comments = [?c1], ratings = []\<rparr>"
  let ?s4 = "\<lparr>movies = [?m1, ?m2], comments = [?c1, ?c2], ratings = []\<rparr>"
  let ?s5 = "\<lparr>movies = [?m1, ?m2], comments = [?c1, ?c2, ?c3], ratings = []\<rparr>"
  let ?s6 = "\<lparr>movies = [?m1, ?m2], comments = [?c1, ?c2, ?c3, ?c4], ratings = []\<rparr>"
  let ?s7 = "\<lparr>movies = [?m1, ?m2], comments = [?c1, ?c2, ?c3, ?c4, ?c5], ratings = []\<rparr>"
  let ?s8 = "\<lparr>movies = [?m1, ?m2], comments = [?c1, ?c2, ?c3, ?c4, ?c5], ratings = [?r1]\<rparr>"
  let ?s9 = "\<lparr>movies = [?m1, ?m2], comments = [?c1, ?c2, ?c3, ?c4, ?c5], ratings = [?r1, ?r2]\<rparr>"
  have 0: "reachable empty_db" by (rule reachable.r_init)
  have "create_movie_endpoint empty_db
          \<lparr>title = ''Alien'', description = Some ''In space'', release_date = Some 722000\<rparr> 1
        = (Inr ?m1, ?s1)"
    by (simp add: create_movie_endpoint_def validate_Movie_def create_movie_def next_id_def empty_db_def Let_def)
  from reachable.r_create_movie [OF 0 this] have 1: "reachable ?s1" .
  have "create_movie_endpoint ?s1
          \<lparr>title = ''Heat'', description = Some ''In town'', release_date = Some 728000\<rparr> 2
        = (Inr ?m2, ?s2)"
    by (simp add: create_movie_endpoint_def validate_Movie_def create_movie_def next_id_def Let_def)
  from reachable.r_create_movie [OF 1 this] have 2: "reachable ?s2" .
  have "add_comment ?s2 1 \<lparr>comment_text = ''Great movie!''\<rparr> 1 = (Inr ?c1, ?s3)"
    by (simp add: add_comment_def validate_CommentCreate_def query_movie_def create_comment_def next_id_def Let_def)
  from reachable.r_add_comment [OF 2 this] have 3: "reachable ?s3" .
  have "add_nested_comment ?s3 1 \<lparr>comment_text = ''I agree''\<rparr> 2 = (Inr ?c2, ?s4)"
    by (simp add: add_nested_comment_def validate_CommentCreate_def create_nested_comment_def next_id_def Let_def)
  from reachable.r_add_nested_comment [OF 3 this] have 4: "reachable ?s4" .
  have "add_nested_comment ?s4 2 \<lparr>comment_text = ''So do I''\<rparr> 1 = (Inr ?c3, ?s5)"
    by (simp add: add_nested_comment_def validate_CommentCreate_def create_nested_comment_def next_id_def Let_def)
  from reachable.r_add_nested_comment [OF 4 this] have 5: "reachable ?s5" .
  have "add_comment ?s5 1 \<lparr>comment_text = ''Too long''\<rparr> 2 = (Inr ?c4, ?s6)"
    by (simp add: add_comment_def validate_CommentCreate_def query_movie_def create_comment_def next_id_def Let_def)
  from reachable.r_add_comment [OF 5 this] have 6: "reachable ?s6" .
  have "add_comment ?s6 1 \<lparr>comment_text = ''A classic''\<rparr> 1 = (Inr ?c5, ?s7)"
    by (simp add: add_comment_def validate_CommentCreate_def query_movie_def create_comment_def next_id_def Let_def)
  from reachable.r_add_comment [OF 6 this] have 7: "reachable ?s7" .
  have "add_rating ?s7 1 5 1 = (Inr ?r1, ?s8)"
    by (simp add: add_rating_def validate_RatingCreate_def check_rating_def query_movie_def
          create_rating_def next_id_def Let_def)
  from reachable.r_add_rating [OF 7 this] have 8: "reachable ?s8" .
  have "add_rating ?s8 1 7 1 = (Inr ?r2, ?s9)"
    by (simp add: add_rating_def validate_RatingCreate_def check_rating_def query_movie_def
          create_rating_def next_id_def Let_def)
  from reachable.r_add_rating [OF 8 this] have 9: "reachable ?s9" .
  have "add_rating ?s9 1 8 1 = (Inr ?r3, example_db)"
    by (simp add: add_rating_def validate_RatingCreate_def check_rating_def query_movie_def
          create_rating_def next_id_def example_db_def Let_def)
  from reachable.r_add_rating [OF 9 this] show ?thesis .
qed

section \<open>Comment deletion\<close>

lemma delete_comment_gone:
  assumes "get_comment d cid = Some c"
  shows "get_comment (delete_comment d cid) cid = None"
proof -
  from get_comment_SomeD [OF assms] have id: "c_id c = cid" by simp
  have "cid \<in> set (cascade (comments d) [cid])" using cascade_superset [of "[cid]"] by auto
  then have "\<forall>x \<in> set (comments (session_delete_comment d c)). c_id x \<noteq> cid"
    by (auto simp: session_delete_comment_def id)
  then have "get_comment (session_delete_comment d c) cid = None"
    by (simp add: get_comment_def find_None)
  then show ?thesis using assms by (simp add: delete_comment_def)
qed

text \<open>
  C2. Deleting a comment is gated by authorship. When no comment has the id, the endpoint
  fails with status 404 (not found). When the comment exists, the endpoint fails with status
  403 (forbidden) exactly when its author is not the acting user, and then the store is
  unchanged; when the author is the acting user, the endpoint succeeds and the comment is
  no longer in the store.
\<close>

theorem delete_comment_gated_by_authorship:
  "(get_comment d comment_id = None \<longrightarrow>
      delete_comment_endpoint d comment_id u = (Inl (HTTPException 404 ''Comment not found''), d)) \<and>
   (\<forall>c. get_comment d comment_id = Some c \<longrightarrow>
      ((\<exists>e. fst (delete_comment_endpoint d comment_id u) = Inl e \<and> status_code e = 403)
         \<longleftrightarrow> c_user_id c \<noteq> u) \<and>
      (c_user_id c \<noteq> u \<longrightarrow>
         delete_comment_endpoint d comment_id u =
           (Inl (HTTPException 403 ''Not authorized to delete this comment''), d)) \<and>
      (c_user_id c = u \<longrightarrow>
         fst (delete_comment_endpoint d comment_id u) = Inr ''success'' \<and>
         get_comment (snd (delete_comment_endpoint d comment_id u)) comment_id = None))"
proof (intro conjI allI impI)
  assume "get_comment d comment_id = None"
  then show "delete_comment_endpoint d comment_id u = (Inl (HTTPException 404 ''Comment not found''), d)"
    by (simp add: delete_comment_endpoint_def)
next
  fix c assume c: "get_comment d comment_id = Some c"
  show "(\<exists>e. fst (delete_comment_endpoint d comment_id u) = Inl e \<and> status_code e = 403)
         \<longleftrightarrow> c_user_id c \<noteq> u"
    using c by (auto simp: delete_comment_endpoint_def)
  {
    assume "c_user_id c \<noteq> u"
    then show "delete_comment_endpoint d comment_id u =
           (Inl (HTTPException 403 ''Not authorized to delete this comment''), d)"
      using c by (simp add: delete_comment_endpoint_def)
  }
  {
    assume eq: "c_user_id c = u"
    then show "fst (delete_comment_endpoint d comment_id u) = Inr ''success''"
      using c by (simp add: delete_comment_endpoint_def)
    show "get_comment (snd (delete_comment_endpoint d comment_id u)) comment_id = None"
      using c eq delete_comment_gone [OF c] by (simp add: delete_comment_endpoint_def)
  }
qed

theorem delete_comment_gated_by_authorship_witness:
  "get_comment example_db 2 = Some \<lparr>c_id = 2, c_comment_text = ''I agree'', c_movie_id = 1,
       c_user_id = 2, c_parent_comment_id = Some 1\<rparr> \<and>
   delete_comment_endpoint example_db 2 1 =
     (Inl (HTTPException 403 ''Not authorized to delete this comment''), example_db) \<and>
   fst (delete_comment_endpoint example_db 2 2) = Inr ''success'' \<and>
   get_comment (snd (delete_comment_endpoint example_db 2 2)) 2 = None \<and>
   get_comment example_db 9 = None \<and>
   delete_comment_endpoint example_db 9 1 = (Inl (HTTPException 404 ''Comment not found''), example_db)"
proof -
  have g: "get_comment example_db 2 = Some \<lparr>c_id = 2, c_comment_text = ''I agree'', c_movie_id = 1,
       c_user_id = 2, c_parent_comment_id = Some 1\<rparr>"
    by (simp add: get_comment_def example_db_def)
  have n: "get_comment example_db 9 = None"
    by (simp add: get_comment_def example_db_def)
  from delete_comment_gated_by_authorship [of example_db 2 1] g
  have a: "delete_comment_endpoint example_db 2 1 =
     (Inl (HTTPException 403 ''Not authorized to delete this comment''), example_db)" by simp
  from delete_comment_gated_by_authorship [of example_db 2 2] g
  have b: "fst (delete_comment_endpoint example_db 2 2) = Inr ''success'' \<and>
           get_comment (snd (delete_comment_endpoint example_db 2 2)) 2 = None" by simp
  from delete_comment_gated_by_authorship [of example_db 9 1] n
  have c: "delete_comment_endpoint example_db 9 1 = (Inl (HTTPException 404 ''Comment not found''), example_db)"
    by simp
  from g n a b c show ?thesis by simp
qed

section \<open>Replies to a missing parent, ratings and their average\<close>

text \<open>
  C8 (as the code has it). A reply to a parent id that no comment has is refused and nothing
  is stored; the refusal is not a 404. \<open>create_nested_comment\<close> raises \<open>ValueError\<close>, which
  the endpoint turns into status 400 with the detail "Parent comment does not exist"; a
  body whose text is shorter than two characters is refused with 422 before that.
\<close>

theorem add_nested_comment_missing_parent:
  "get_comment d parent_comment_id = None \<Longrightarrow>
   add_nested_comment d parent_comment_id body u =
     (Inl (if length (comment_text body) < 2
           then ValidationError ''String should have at least 2 characters''
           else HTTPException 400 ''Parent comment does not exist''), d)"
  by (simp add: add_nested_comment_def validate_CommentCreate_def create_nested_comment_def
        get_comment_def)

theorem add_nested_comment_missing_parent_witness:
  "get_comment example_db 9 = None \<and>
   add_nested_comment example_db 9 \<lparr>comment_text = ''Me too''\<rparr> 1 =
     (Inl (HTTPException 400 ''Parent comment does not exist''), example_db)"
proof -
  have n: "get_comment example_db 9 = None"
    by (simp add: get_comment_def example_db_def)
  from add_nested_comment_missing_parent [OF n, of "\<lparr>comment_text = ''Me too''\<rparr>" 1] n
  show ?thesis by simp
qed

text \<open>
  The claim as stated fails: in the example store no comment has id 9, and the reply to it
  is answered with status 400, not 404.
\<close>

theorem add_nested_comment_not_404_counterexample:
  "get_comment example_db 9 = None \<and>
   (\<exists>e. fst (add_nested_comment example_db 9 \<lparr>comment_text = ''Me too''\<rparr> 1) = Inl e \<and>
        status_code e = 400 \<and> status_code e \<noteq> 404)"
  by (simp add: get_comment_def example_db_def add_nested_comment_def validate_CommentCreate_def
        create_nested_comment_def)

text \<open>
  C7. \<open>add_rating\<close> refuses a value with a validation error (status 422) exactly when the
  value is outside 1..10, and then the store is unchanged. A value inside the range passes
  the validation whatever the movie; for an existing movie the rating is stored with that
  value, movie and user, and for a missing movie the answer is 404.
\<close>

theorem add_rating_accepts_1_to_10:
  "((\<exists>e. fst (add_rating d movie_id v u) = Inl e \<and> status_code e = 422) \<longleftrightarrow> (v < 1 \<or> 10 < v)) \<and>
   ((v < 1 \<or> 10 < v) \<longrightarrow>
      add_rating d movie_id v u = (Inl (ValidationError ''Rating must be between 1 and 10''), d)) \<and>
   (1 \<le> v \<and> v \<le> 10 \<longrightarrow> query_movie d movie_id \<noteq> None \<longrightarrow>
      (\<exists>r. add_rating d movie_id v u = (Inr r, d\<lparr>ratings := ratings d @ [r]\<rparr>) \<and>
           r_rating r = v \<and> r_movie_id r = movie_id \<and> r_user_id r = u)) \<and>
   (1 \<le> v \<and> v \<le> 10 \<longrightarrow> query_movie d movie_id = None \<longrightarrow>
      add_rating d movie_id v u = (Inl (HTTPException 404 ''Movie not found''), d))"
proof (cases "v < 1 \<or> 10 < v")
  case True
  then have "add_rating d movie_id v u = (Inl (ValidationError ''Rating must be between 1 and 10''), d)"
    by (auto simp: add_rating_def validate_RatingCreate_def check_rating_def)
  with True show ?thesis by auto
next
  case False
  then have v: "validate_RatingCreate v = Inr \<lparr>rating = v\<rparr>"
    by (auto simp: validate_RatingCreate_def check_rating_def)
  show ?thesis
  proof (cases "query_movie d movie_id")
    case None
    with v have "add_rating d movie_id v u = (Inl (HTTPException 404 ''Movie not found''), d)"
      by (simp add: add_rating_def)
    with False None show ?thesis by simp
  next
    case (Some mv)
    let ?r = "\<lparr>r_id = next_id (map r_id (ratings d)), r_rating = v, r_movie_id = movie_id, r_user_id = u\<rparr>"
    from v Some have "add_rating d movie_id v u = (Inr ?r, d\<lparr>ratings := ratings d @ [?r]\<rparr>)"
      by (simp add: add_rating_def create_rating_def Let_def)
    with False Some show ?thesis by simp
  qed
qed

theorem add_rating_accepts_1_to_10_witness:
  "add_rating example_db 1 0 1 = (Inl (ValidationError ''Rating must be between 1 and 10''), example_db) \<and>
   add_rating example_db 1 11 1 = (Inl (ValidationError ''Rating must be between 1 and 10''), example_db) \<and>
   query_movie example_db 1 \<noteq> None \<and>
   (\<exists>r. add_rating example_db 1 1 1 = (Inr r, example_db\<lparr>ratings := ratings example_db @ [r]\<rparr>) \<and>
        r_rating r = 1 \<and> r_movie_id r = 1 \<and> r_user_id r = 1) \<and>
   (\<exists>r. add_rating example_db 1 10 1 = (Inr r, example_db\<lparr>ratings := ratings example_db @ [r]\<rparr>) \<and>
        r_rating r = 10 \<and> r_movie_id r = 1 \<and> r_user_id r = 1)"
proof -
  have q: "query_movie example_db 1 \<noteq> None" by (simp add: query_movie_def example_db_def)
  from add_rating_accepts_1_to_10 [of example_db 1 0 1]
  have a: "add_rating example_db 1 0 1 = (Inl (ValidationError ''Rating must be between 1 and 10''), example_db)"
    by simp
  from add_rating_accepts_1_to_10 [of example_db 1 11 1]
  have b: "add_rating example_db 1 11 1 = (Inl (ValidationError ''Rating must be between 1 and 10''), example_db)"
    by simp
  from add_rating_accepts_1_to_10 [of example_db 1 1 1] q
  have c: "\<exists>r. add_rating example_db 1 1 1 = (Inr r, example_db\<lparr>ratings := ratings example_db @ [r]\<rparr>) \<and>
        r_rating r = 1 \<and> r_movie_id r = 1 \<and> r_user_id r = 1" by simp
  from add_rating_accepts_1_to_10 [of example_db 1 10 1] q
  have e: "\<exists>r. add_rating example_db 1 10 1 = (Inr r, example_db\<lparr>ratings := ratings example_db @ [r]\<rparr>) \<and>
        r_rating r = 10 \<and> r_movie_id r = 1 \<and> r_user_id r = 1" by simp
  from a b q c e show ?thesis by (intro conjI)
qed

text \<open>
  C6. The average-rating endpoint returns the arithmetic mean of the rating values stored
  for the movie, and 0 when there is none. The 0 is put in by the endpoint:
  \<open>crud.get_average_rating\<close> returns \<open>None\<close> exactly when the movie has no rating.
\<close>

theorem average_rating_is_mean:
  "get_average_rating_endpoint d movie_id =
     Inr \<lparr>average_rating =
            (let vs = map r_rating (filter (\<lambda>r. r_movie_id r = movie_id) (ratings d))
             in if vs = [] then 0 else real_of_int (sum_list vs) / real (length vs))\<rparr> \<and>
   (get_average_rating d movie_id = None \<longleftrightarrow> filter (\<lambda>r. r_movie_id r = movie_id) (ratings d) = [])"
  by (simp add: get_average_rating_endpoint_def get_average_rating_def sql_avg_def Let_def)

theorem average_rating_is_mean_witness:
  "map r_rating (filter (\<lambda>r. r_movie_id r = 1) (ratings example_db)) = [5, 7, 8] \<and>
   get_average_rating_endpoint example_db 1 = Inr \<lparr>average_rating = 20 / 3\<rparr> \<and>
   get_average_rating example_db 2 = None \<and>
   get_average_rating_endpoint example_db 2 = Inr \<lparr>average_rating = 0\<rparr>"
proof -
  have v1: "map r_rating (filter (\<lambda>r. r_movie_id r = 1) (ratings example_db)) = [5, 7, 8]"
    by (simp add: example_db_def)
  have v2: "filter (\<lambda>r. r_movie_id r = 2) (ratings example_db) = []"
    by (simp add: example_db_def)
  from average_rating_is_mean [of example_db 1] v1
  have a: "get_average_rating_endpoint example_db 1 = Inr \<lparr>average_rating = 20 / 3\<rparr>" by simp
  from average_rating_is_mean [of example_db 2] v2
  have b: "get_average_rating example_db 2 = None \<and>
           get_average_rating_endpoint example_db 2 = Inr \<lparr>average_rating = 0\<rparr>" by simp
  from v1 a b show ?thesis by simp
qed

lemma no_ratings_of_missing_movie:
  assumes "wf_db d" and "query_movie d movie_id = None"
  shows "filter (\<lambda>r. r_movie_id r = movie_id) (ratings d) = []"
proof -
  from assms(2) have none: "\<forall>m \<in> set (movies d). m_id m \<noteq> movie_id"
    by (simp add: query_movie_def find_None)
  have "r_movie_id r \<noteq> movie_id" if "r \<in> set (ratings d)" for r
    using wf_rating_movie [OF assms(1) that] none by auto
  then show ?thesis by (simp add: filter_empty_conv)
qed

text \<open>
  C10. The average-rating endpoint does not look the movie up. In every store the
  application can reach, the request for a movie id that no movie has is answered with
  0, and not with an error: the same answer as for an existing movie without ratings.
\<close>

theorem average_rating_of_missing_movie:
  assumes "reachable d1" and "query_movie d1 m1 = None"
    and "query_movie d2 m2 = Some mv" and "filter (\<lambda>r. r_movie_id r = m2) (ratings d2) = []"
  shows "get_average_rating_endpoint d1 m1 = Inr \<lparr>average_rating = 0\<rparr> \<and>
         get_average_rating_endpoint d2 m2 = get_average_rating_endpoint d1 m1"
proof -
  have "filter (\<lambda>r. r_movie_id r = m1) (ratings d1) = []"
    using reachable_wf [OF assms(1)] assms(2) by (rule no_ratings_of_missing_movie)
  then have "get_average_rating_endpoint d1 m1 = Inr \<lparr>average_rating = 0\<rparr>"
    by (simp add: get_average_rating_endpoint_def get_average_rating_def sql_avg_def Let_def)
  moreover have "get_average_rating_endpoint d2 m2 = Inr \<lparr>average_rating = 0\<rparr>"
    using assms(4)
    by (simp add: get_average_rating_endpoint_def get_average_rating_def sql_avg_def Let_def)
  ultimately show ?thesis by simp
qed

theorem average_rating_of_missing_movie_witness:
  "reachable example_db \<and> query_movie example_db 9 = None \<and>
   query_movie example_db 2 \<noteq> None \<and>
   filter (\<lambda>r. r_movie_id r = 2) (ratings example_db) = [] \<and>
   get_average_rating_endpoint example_db 9 = Inr \<lparr>average_rating = 0\<rparr> \<and>
   get_average_rating_endpoint example_db 2 = get_average_rating_endpoint example_db 9"
proof -
  have a: "query_movie example_db 9 = None" by (simp add: query_movie_def example_db_def)
  have b: "query_movie example_db 2 = Some \<lparr>m_id = 2, m_title = ''Heat'', m_description = ''In town'',
             m_release_date = 728000, m_user_id = Some 2\<rparr>"
    by (simp add: query_movie_def example_db_def)
  have c: "filter (\<lambda>r. r_movie_id r = 2) (ratings example_db) = []"
    by (simp add: example_db_def)
  from average_rating_of_missing_movie [OF reachable_example_db a b c] reachable_example_db a b c
  show ?thesis by simp
qed

section \<open>Descendants in a well-formed store\<close>

lemma distinct_find_self:
  "distinct (map f xs) \<Longrightarrow> x \<in> set xs \<Longrightarrow> find (\<lambda>y. f y = f x) xs = Some x"
  by (induction xs) (auto simp: image_iff)

lemma distinct_filter_card:
  "distinct (map f xs) \<Longrightarrow> length (filter (\<lambda>x. f x \<in> A) xs) = card (A \<inter> f ` set xs)"
proof (induction xs)
  case Nil
  then show ?case by simp
next
  case (Cons x xs)
  then have IH: "length (filter (\<lambda>x. f x \<in> A) xs) = card (A \<inter> f ` set xs)"
    and nin: "f x \<notin> f ` set xs" by simp_all
  show ?case
  proof (cases "f x \<in> A")
    case True
    then have "A \<inter> f ` set (x # xs) = insert (f x) (A \<inter> f ` set xs)" by auto
    moreover have "f x \<notin> A \<inter> f ` set xs" using nin by simp
    ultimately have "card (A \<inter> f ` set (x # xs)) = Suc (card (A \<inter> f ` set xs))" by simp
    with True IH show ?thesis by simp
  next
    case False
    then have "A \<inter> f ` set (x # xs) = A \<inter> f ` set xs" by auto
    with False IH show ?thesis by simp
  qed
qed

lemma descendants_in_table: "x \<in> descendants cs a \<Longrightarrow> x \<in> c_id ` set cs"
  by (induction rule: descendants.induct) auto

lemma finite_descendants: "finite (descendants cs a)"
  by (rule finite_subset [of _ "c_id ` set cs"]) (auto dest: descendants_in_table)

lemma descendants_greater:
  assumes wf: "wf_db d"
  shows "x \<in> descendants (comments d) a \<Longrightarrow> a < x"
proof (induction rule: descendants.induct)
  case (d_child c)
  then show ?case using wf_parent_less [OF wf] by simp
next
  case (d_step p c)
  then show ?case using wf_parent_less [OF wf d_step(2,3)] by simp
qed

lemma wf_comment_unique:
  "wf_db d \<Longrightarrow> x \<in> set (comments d) \<Longrightarrow> y \<in> set (comments d) \<Longrightarrow> c_id x = c_id y \<Longrightarrow> x = y"
  using wf_comments_distinct [of d] by (simp add: distinct_map inj_on_def)

lemma descendants_same_movie:
  assumes wf: "wf_db d" and a: "ca \<in> set (comments d)" "c_id ca = a"
  shows "x \<in> descendants (comments d) a \<Longrightarrow> y \<in> set (comments d) \<Longrightarrow> c_id y = x
         \<Longrightarrow> c_movie_id y = c_movie_id ca"
proof (induction arbitrary: y rule: descendants.induct)
  case (d_child c)
  have yc: "y = c" using wf_comment_unique [OF wf d_child.prems(1) d_child.hyps(1)] d_child.prems(2) by simp
  from wf_parent_ex [OF wf d_child.hyps] obtain pc where
    pc: "pc \<in> set (comments d)" "c_id pc = a" "c_movie_id pc = c_movie_id c" by blast
  have "pc = ca" using wf_comment_unique [OF wf pc(1) a(1)] pc(2) a(2) by simp
  with pc yc show ?case by simp
next
  case (d_step p c)
  have yc: "y = c" using wf_comment_unique [OF wf d_step.prems(1) d_step.hyps(2)] d_step.prems(2) by simp
  from wf_parent_ex [OF wf d_step.hyps(2,3)] obtain pc where
    pc: "pc \<in> set (comments d)" "c_id pc = p" "c_movie_id pc = c_movie_id c" by blast
  from d_step.IH [OF pc(1,2)] pc(3) yc show ?case by simp
qed

section \<open>Deleting a comment removes its subtree\<close>

lemma session_delete_comment_comments:
  "comments (session_delete_comment d c) =
     filter (\<lambda>x. c_id x \<noteq> c_id c \<and> c_id x \<notin> descendants (comments d) (c_id c)) (comments d)"
  by (simp add: session_delete_comment_def set_cascade)

lemma removed_count:
  assumes wf: "wf_db d" and c: "c \<in> set (comments d)"
  shows "length (filter (\<lambda>x. c_movie_id x = c_movie_id c \<and>
                        \<not> (c_id x \<noteq> c_id c \<and> c_id x \<notin> descendants (comments d) (c_id c))) (comments d))
         = 1 + card (descendants (comments d) (c_id c))"
proof -
  let ?cs = "comments d"
  let ?D = "descendants ?cs (c_id c)"
  let ?A = "insert (c_id c) ?D"
  have same: "c_movie_id x = c_movie_id c" if "x \<in> set ?cs" "c_id x \<in> ?A" for x
  proof (cases "c_id x = c_id c")
    case True
    then have "x = c" using wf_comment_unique [OF wf that(1) c] by simp
    then show ?thesis by simp
  next
    case False
    with that(2) have "c_id x \<in> ?D" by simp
    from descendants_same_movie [OF wf c refl this that(1) refl] show ?thesis .
  qed
  have "filter (\<lambda>x. c_movie_id x = c_movie_id c \<and> \<not> (c_id x \<noteq> c_id c \<and> c_id x \<notin> ?D)) ?cs
        = filter (\<lambda>x. c_id x \<in> ?A) ?cs"
    by (rule filter_cong [OF refl]) (use same in auto)
  then have "length (filter (\<lambda>x. c_movie_id x = c_movie_id c \<and> \<not> (c_id x \<noteq> c_id c \<and> c_id x \<notin> ?D)) ?cs)
        = card (?A \<inter> c_id ` set ?cs)"
    using distinct_filter_card [OF wf_comments_distinct [OF wf], of ?A] by simp
  also have "?A \<inter> c_id ` set ?cs = ?A"
    using c descendants_in_table [of _ ?cs "c_id c"] by auto
  also have "card ?A = 1 + card ?D"
  proof -
    have "c_id c \<notin> ?D" using descendants_greater [OF wf, of "c_id c" "c_id c"] by auto
    then show ?thesis using finite_descendants [of ?cs "c_id c"] by simp
  qed
  finally show ?thesis .
qed

lemma length_filter_split:
  "length (filter P xs) = length (filter P (filter Q xs)) + length (filter (\<lambda>x. P x \<and> \<not> Q x) xs)"
  by (induction xs) auto

text \<open>
  C3. In every store the application can reach, the deletion of a comment by its author
  succeeds and removes exactly the comment and its transitive descendants: the comments
  left are the others, in their order, and movies and ratings are untouched. The number
  of comments of the comment's movie goes down by 1 plus the number of its descendants.
\<close>

theorem delete_comment_removes_subtree:
  assumes "reachable d" and "get_comment d comment_id = Some c" and "c_user_id c = u"
  shows "\<exists>d'. delete_comment_endpoint d comment_id u = (Inr ''success'', d') \<and>
           comments d' = filter (\<lambda>x. c_id x \<noteq> comment_id \<and>
                                     c_id x \<notin> descendants (comments d) comment_id) (comments d) \<and>
           movies d' = movies d \<and> ratings d' = ratings d \<and>
           length (filter (\<lambda>x. c_movie_id x = c_movie_id c) (comments d'))
             + (1 + card (descendants (comments d) comment_id))
           = length (filter (\<lambda>x. c_movie_id x = c_movie_id c) (comments d))"
proof -
  have wf: "wf_db d" using assms(1) by (rule reachable_wf)
  from get_comment_SomeD [OF assms(2)] have id: "c_id c = comment_id" and cin: "c \<in> set (comments d)"
    by simp_all
  let ?d' = "session_delete_comment d c"
  let ?keep = "\<lambda>x. c_id x \<noteq> comment_id \<and> c_id x \<notin> descendants (comments d) comment_id"
  have res: "delete_comment_endpoint d comment_id u = (Inr ''success'', ?d')"
    using assms(2,3) by (simp add: delete_comment_endpoint_def delete_comment_def)
  have cm: "comments ?d' = filter ?keep (comments d)"
    using session_delete_comment_comments [of d c] id by simp
  have mr: "movies ?d' = movies d" "ratings ?d' = ratings d"
    by (simp_all add: session_delete_comment_def)
  have "length (filter (\<lambda>x. c_movie_id x = c_movie_id c) (comments d))
        = length (filter (\<lambda>x. c_movie_id x = c_movie_id c) (filter ?keep (comments d)))
          + length (filter (\<lambda>x. c_movie_id x = c_movie_id c \<and> \<not> ?keep x) (comments d))"
    by (rule length_filter_split)
  also have "length (filter (\<lambda>x. c_movie_id x = c_movie_id c \<and> \<not> ?keep x) (comments d))
        = 1 + card (descendants (comments d) comment_id)"
    using removed_count [OF wf cin] id by simp
  finally have cnt: "length (filter (\<lambda>x. c_movie_id x = c_movie_id c) (comments ?d'))
             + (1 + card (descendants (comments d) comment_id))
           = length (filter (\<lambda>x. c_movie_id x = c_movie_id c) (comments d))"
    using cm by simp
  from res cm mr cnt show ?thesis by blast
qed

lemma example_descendants_1: "descendants (comments example_db) 1 = {2, 3}"
proof -
  have r1: "replies_to (comments example_db) [1] = [2]"
    by (simp add: replies_to_def example_db_def)
  have r2: "replies_to (comments example_db) [1, 2] = [3]"
    by (simp add: replies_to_def example_db_def)
  have r3: "replies_to (comments example_db) [1, 2, 3] = []"
    by (simp add: replies_to_def example_db_def)
  have "cascade (comments example_db) [1] = [1, 2, 3]"
    by (simp add: cascade.simps [of _ "[1]"] cascade.simps [of _ "[1, 2]"]
          cascade.simps [of _ "[1, 2, 3]"] r1 r2 r3)
  then have "insert 1 (descendants (comments example_db) 1) = {1, 2, 3}"
    using set_cascade [of "comments example_db" "[1]"] by simp
  moreover have "1 \<notin> descendants (comments example_db) 1"
    using descendants_greater [OF reachable_wf [OF reachable_example_db], of 1 1] by auto
  ultimately have "descendants (comments example_db) 1 = {1, 2, 3} - {1}" by blast
  then show ?thesis by simp
qed

theorem delete_comment_removes_subtree_witness:
  "reachable example_db \<and>
   get_comment example_db 1 = Some \<lparr>c_id = 1, c_comment_text = ''Great movie!'', c_movie_id = 1,
       c_user_id = 1, c_parent_comment_id = None\<rparr> \<and>
   card (descendants (comments example_db) 1) = 2 \<and>
   length (filter (\<lambda>x. c_movie_id x = 1) (comments example_db)) = 5 \<and>
   (\<exists>d'. delete_comment_endpoint example_db 1 1 = (Inr ''success'', d') \<and>
         map c_id (comments d') = [4, 5] \<and>
         movies d' = movies example_db \<and> ratings d' = ratings example_db \<and>
         length (filter (\<lambda>x. c_movie_id x = 1) (comments d')) + 3 = 5)"
proof -
  let ?c1 = "\<lparr>c_id = 1, c_comment_text = ''Great movie!'', c_movie_id = 1,
       c_user_id = 1, c_parent_comment_id = None\<rparr>"
  have g: "get_comment example_db 1 = Some ?c1"
    by (simp add: get_comment_def example_db_def)
  have n: "length (filter (\<lambda>x. c_movie_id x = 1) (comments example_db)) = 5"
    by (simp add: example_db_def)
  have k: "card (descendants (comments example_db) 1) = 2"
    by (simp add: example_descendants_1)
  have f: "map c_id (filter (\<lambda>x. c_id x \<noteq> 1 \<and> c_id x \<notin> {2, 3}) (comments example_db)) = [4, 5]"
    by (simp add: example_db_def)
  from delete_comment_removes_subtree [OF reachable_example_db g, of 1]
  obtain d' where d': "delete_comment_endpoint example_db 1 1 = (Inr ''success'', d')"
    "comments d' = filter (\<lambda>x. c_id x \<noteq> 1 \<and> c_id x \<notin> descendants (comments example_db) 1)
                     (comments example_db)"
    "movies d' = movies example_db" "ratings d' = ratings example_db"
    "length (filter (\<lambda>x. c_movie_id x = c_movie_id ?c1) (comments d'))
       + (1 + card (descendants (comments example_db) 1))
     = length (filter (\<lambda>x. c_movie_id x = c_movie_id ?c1) (comments example_db))"
    by auto
  have ids: "map c_id (comments d') = [4, 5]"
    using d'(2) f by (simp add: example_descendants_1)
  have cnt: "length (filter (\<lambda>x. c_movie_id x = 1) (comments d')) + 3 = 5"
    using d'(5) k n by simp
  from d'(1,3,4) ids cnt have
    "\<exists>d'. delete_comment_endpoint example_db 1 1 = (Inr ''success'', d') \<and>
         map c_id (comments d') = [4, 5] \<and>
         movies d' = movies example_db \<and> ratings d' = ratings example_db \<and>
         length (filter (\<lambda>x. c_movie_id x = 1) (comments d')) + 3 = 5"
    by (intro exI [of _ d'] conjI)
  with reachable_example_db g k n show ?thesis by (intro conjI)
qed

section \<open>Deleting and updating movies\<close>

lemma load_roots:
  assumes wf: "wf_db d" and sub: "set xs \<subseteq> set (comments d)"
  shows "\<exists>ts. those (map (\<lambda>c. map_option (CommentNode c)
                   (load_replies (length (comments d)) (comments d) c)) xs) = Some ts \<and>
              map root_of ts = xs \<and> (\<forall>t \<in> set ts. full_tree (comments d) t)"
proof -
  let ?cs = "comments d"
  let ?f = "\<lambda>c. map_option (CommentNode c) (load_replies (length ?cs) ?cs c)"
  have less: "\<And>x p. x \<in> set ?cs \<Longrightarrow> c_parent_comment_id x = Some p \<Longrightarrow> p < c_id x"
    using wf_parent_less [OF wf] .
  have one: "\<exists>t. ?f c = Some t \<and> root_of t = c \<and> full_tree ?cs t" if "c \<in> set xs" for c
  proof -
    from that sub have cin: "c \<in> set ?cs" by auto
    have "length (filter (\<lambda>x. c_id c < c_id x) ?cs) < length ?cs"
      by (rule length_filter_less [OF cin]) simp
    from load_replies_total [OF less this] obtain us where us: "load_replies (length ?cs) ?cs c = Some us"
      by blast
    from load_replies_full [OF us] us show ?thesis by simp
  qed
  then have "\<forall>c \<in> set xs. ?f c = Some (the (?f c))" by fastforce
  then have all2: "list_all2 (\<lambda>x y. ?f x = Some y) xs (map (\<lambda>c. the (?f c)) xs)"
    unfolding list_all2_map2 list_all2_same .
  then have th: "those (map ?f xs) = Some (map (\<lambda>c. the (?f c)) xs)"
    by (simp only: those_map_iff)
  have r: "map root_of (map (\<lambda>c. the (?f c)) xs) = xs"
  proof -
    have "root_of (the (?f c)) = c" if "c \<in> set xs" for c using one [OF that] by auto
    then show ?thesis by (simp add: map_idI)
  qed
  have f: "\<forall>t \<in> set (map (\<lambda>c. the (?f c)) xs). full_tree ?cs t"
  proof
    fix t assume "t \<in> set (map (\<lambda>c. the (?f c)) xs)"
    then obtain c where "c \<in> set xs" "t = the (?f c)" by auto
    with one [of c] show "full_tree ?cs t" by auto
  qed
  from th r f show ?thesis by blast
qed


lemma delete_movie_not_owned:
  assumes "u \<noteq> 0" and "\<forall>m \<in> set (movies d). m_id m = movie_id \<longrightarrow> m_user_id m \<noteq> Some u"
  shows "delete_movie_endpoint d movie_id u = Some (Inl (HTTPException 404 ''Movie not found''), d)"
proof -
  have "filter (\<lambda>m. m_user_id m = Some u) (filter (\<lambda>m. m_id m = movie_id) (movies d)) = []"
    using assms(2) by (auto simp: filter_empty_conv)
  then have "get_movie d movie_id (Some u) = Some None"
    using assms(1) by (simp add: get_movie_def Let_def)
  then show ?thesis by (simp add: delete_movie_endpoint_def delete_movie_def)
qed

lemma update_movie_not_owned:
  assumes "\<forall>m \<in> set (movies d). m_id m = movie_id \<longrightarrow> m_user_id m \<noteq> Some u"
  shows "update_movie d movie_id body u =
           (case validate_Movie body of
              Inl e \<Rightarrow> (Inl e, d)
            | Inr payload \<Rightarrow> (Inl (HTTPException 404 ''Movie not found''), d))"
proof -
  have "find (\<lambda>m. m_id m = movie_id \<and> m_user_id m = Some u) (movies d) = None"
    using assms by (auto simp: find_None)
  then show ?thesis by (simp add: update_movie_def split: sum.splits)
qed



lemma session_delete_movie_clean:
  "query_movie (session_delete_movie d m) (m_id m) = None \<and>
   filter (\<lambda>c. c_movie_id c = m_id m) (comments (session_delete_movie d m)) = [] \<and>
   filter (\<lambda>r. r_movie_id r = m_id m) (ratings (session_delete_movie d m)) = []"
proof (intro conjI)
  show "query_movie (session_delete_movie d m) (m_id m) = None"
    by (simp add: query_movie_def find_None session_delete_movie_def)
  show "filter (\<lambda>c. c_movie_id c = m_id m) (comments (session_delete_movie d m)) = []"
    using session_delete_movie_comments [of _ d m] by (auto simp: filter_empty_conv)
  show "filter (\<lambda>r. r_movie_id r = m_id m) (ratings (session_delete_movie d m)) = []"
    by (simp add: session_delete_movie_def filter_empty_conv)
qed




text \<open>
  For an acting user whose id is not 0, a movie of another user and a movie id that no
  movie has are answered alike, by the update endpoint and by the delete endpoint.
\<close>

lemma not_owned_same_as_absent:
  assumes "u \<noteq> 0"
    and "\<forall>m \<in> set (movies d1). m_id m = movie_id \<longrightarrow> m_user_id m \<noteq> Some u"
    and "query_movie d2 movie_id = None"
  shows "fst (update_movie d1 movie_id body u) = fst (update_movie d2 movie_id body u) \<and>
         map_option fst (delete_movie_endpoint d1 movie_id u)
           = Some (Inl (HTTPException 404 ''Movie not found'')) \<and>
         map_option fst (delete_movie_endpoint d2 movie_id u)
           = Some (Inl (HTTPException 404 ''Movie not found''))"
proof -
  from assms(3) have no2: "\<forall>m \<in> set (movies d2). m_id m = movie_id \<longrightarrow> m_user_id m \<noteq> Some u"
    by (simp add: query_movie_def find_None)
  have "fst (update_movie d1 movie_id body u) = fst (update_movie d2 movie_id body u)"
    unfolding update_movie_not_owned [OF assms(2)] update_movie_not_owned [OF no2]
    by (simp split: sum.splits)
  then show ?thesis
    using delete_movie_not_owned [OF assms(1,2)] delete_movie_not_owned [OF assms(1) no2] by simp
qed

section \<open>A movie of another user is not found\<close>

text \<open>
  C4. A movie that exists but belongs to another user is answered like a movie id that no
  movie has, by the update endpoint and by the delete endpoint: both runs give the same
  error, 404 "Movie not found" (for the update, after the same check of the body), never
  403, and the store is left as it was. The acting user is a user of the store, whose id
  the store assigned, so it is not 0.
\<close>

theorem movie_of_other_user_is_not_found:
  assumes "u \<noteq> 0"
    and "reachable d1" and "query_movie d1 id1 = Some mv" and "m_user_id mv \<noteq> Some u"
    and "query_movie d2 id2 = None"
  shows "update_movie d1 id1 body u =
           (if length (title body) < 1
            then Inl (ValidationError ''String should have at least 1 character'')
            else Inl (HTTPException 404 ''Movie not found''), d1) \<and>
         fst (update_movie d1 id1 body u) = fst (update_movie d2 id2 body u) \<and>
         snd (update_movie d2 id2 body u) = d2 \<and>
         delete_movie_endpoint d1 id1 u = Some (Inl (HTTPException 404 ''Movie not found''), d1) \<and>
         delete_movie_endpoint d2 id2 u = Some (Inl (HTTPException 404 ''Movie not found''), d2)"
proof -
  have wf: "wf_db d1" using assms(2) by (rule reachable_wf)
  from query_movie_SomeD [OF assms(3)] have mv: "m_id mv = id1" "mv \<in> set (movies d1)" by simp_all
  have no1: "\<forall>m \<in> set (movies d1). m_id m = id1 \<longrightarrow> m_user_id m \<noteq> Some u"
  proof (intro ballI impI)
    fix m assume m: "m \<in> set (movies d1)" "m_id m = id1"
    have "inj_on m_id (set (movies d1))"
      using wf_movies_distinct [OF wf] by (simp add: distinct_map)
    then have "m = mv" using m mv by (auto dest: inj_onD)
    with assms(4) show "m_user_id m \<noteq> Some u" by simp
  qed
  from assms(5) have no2: "\<forall>m \<in> set (movies d2). m_id m = id2 \<longrightarrow> m_user_id m \<noteq> Some u"
    by (simp add: query_movie_def find_None)
  have u1: "update_movie d1 id1 body u =
           (if length (title body) < 1
            then Inl (ValidationError ''String should have at least 1 character'')
            else Inl (HTTPException 404 ''Movie not found''), d1)"
    unfolding update_movie_not_owned [OF no1] by (simp add: validate_Movie_def)
  have u2: "update_movie d2 id2 body u =
           (if length (title body) < 1
            then Inl (ValidationError ''String should have at least 1 character'')
            else Inl (HTTPException 404 ''Movie not found''), d2)"
    unfolding update_movie_not_owned [OF no2] by (simp add: validate_Movie_def)
  from u1 u2 delete_movie_not_owned [OF assms(1) no1] delete_movie_not_owned [OF assms(1) no2]
  show ?thesis by simp
qed

theorem movie_of_other_user_is_not_found_witness:
  "(1::int) \<noteq> 0 \<and> reachable example_db \<and>
   query_movie example_db 2 = Some \<lparr>m_id = 2, m_title = ''Heat'', m_description = ''In town'',
       m_release_date = 728000, m_user_id = Some 2\<rparr> \<and>
   query_movie example_db 9 = None \<and>
   update_movie example_db 2 \<lparr>title = ''Mine'', description = None, release_date = None\<rparr> 1 =
     (Inl (HTTPException 404 ''Movie not found''), example_db) \<and>
   update_movie example_db 9 \<lparr>title = ''Mine'', description = None, release_date = None\<rparr> 1 =
     (Inl (HTTPException 404 ''Movie not found''), example_db) \<and>
   delete_movie_endpoint example_db 2 1 = Some (Inl (HTTPException 404 ''Movie not found''), example_db) \<and>
   delete_movie_endpoint example_db 9 1 = Some (Inl (HTTPException 404 ''Movie not found''), example_db)"
proof -
  let ?m2 = "\<lparr>m_id = 2, m_title = ''Heat'', m_description = ''In town'',
       m_release_date = 728000, m_user_id = Some 2\<rparr>"
  let ?b = "\<lparr>title = ''Mine'', description = None, release_date = None\<rparr>"
  have u: "(1::int) \<noteq> 0" by simp
  have a: "query_movie example_db 2 = Some ?m2" by (simp add: query_movie_def example_db_def)
  have o: "m_user_id ?m2 \<noteq> Some 1" by simp
  have b: "query_movie example_db 9 = None" by (simp add: query_movie_def example_db_def)
  note t2 = movie_of_other_user_is_not_found [OF u reachable_example_db a o b, of ?b]
  have b2: "query_movie example_db 2 \<noteq> None" using a by simp
  have e2: "update_movie example_db 2 ?b 1 = (Inl (HTTPException 404 ''Movie not found''), example_db)"
    using t2 by simp
  have e9: "update_movie example_db 9 ?b 1 = (Inl (HTTPException 404 ''Movie not found''), example_db)"
  proof -
    from t2 e2 have "fst (update_movie example_db 9 ?b 1) = Inl (HTTPException 404 ''Movie not found'')"
      "snd (update_movie example_db 9 ?b 1) = example_db" by simp_all
    then show ?thesis by (simp add: prod_eq_iff)
  qed
  from t2 have d2: "delete_movie_endpoint example_db 2 1 =
      Some (Inl (HTTPException 404 ''Movie not found''), example_db)"
    and d9: "delete_movie_endpoint example_db 9 1 =
      Some (Inl (HTTPException 404 ''Movie not found''), example_db)" by simp_all
  from u reachable_example_db a b e2 e9 d2 d9 show ?thesis by (intro conjI)
qed

text \<open>
  The condition on the acting user's id cannot be dropped. \<open>get_movie\<close> tests
  \<open>if user_id:\<close>, which is false for 0, and then does not filter by owner: in the example
  store, where movie 2 belongs to user 2, a delete request by a user with id 0 would be
  answered with success. No user has that id: the store assigns the keys, from 1 on
  (\<open>next_id_positive\<close>).
\<close>

lemma delete_movie_by_user_0_ignores_owner:
  "query_movie example_db 2 = Some \<lparr>m_id = 2, m_title = ''Heat'', m_description = ''In town'',
       m_release_date = 728000, m_user_id = Some 2\<rparr> \<and>
   query_movie example_db 9 = None \<and>
   delete_movie_endpoint example_db 9 0 = Some (Inl (HTTPException 404 ''Movie not found''), example_db) \<and>
   (\<exists>d'. delete_movie_endpoint example_db 2 0 =
           Some (Inr \<lparr>message = ''success'',
                      data = \<lparr>m_id = 2, m_title = ''Heat'', m_description = ''In town'',
                               m_release_date = 728000, m_user_id = Some 2\<rparr>\<rparr>, d') \<and>
         query_movie d' 2 = None)"
proof -
  let ?m2 = "\<lparr>m_id = 2, m_title = ''Heat'', m_description = ''In town'',
       m_release_date = 728000, m_user_id = Some 2\<rparr>"
  have a: "query_movie example_db 2 = Some ?m2" by (simp add: query_movie_def example_db_def)
  have b: "query_movie example_db 9 = None" by (simp add: query_movie_def example_db_def)
  have c: "delete_movie_endpoint example_db 9 0 = Some (Inl (HTTPException 404 ''Movie not found''), example_db)"
    by (simp add: delete_movie_endpoint_def delete_movie_def get_movie_def Let_def example_db_def)
  have l: "load_comments_with_replies example_db 2 = Some []"
    by (simp add: load_comments_with_replies_def example_db_def)
  have q: "filter (\<lambda>m. m_id m = 2) (movies example_db) = [?m2]" by (simp add: example_db_def)
  have g: "get_movie example_db 2 (Some 0) = Some (Some (?m2, []))"
    by (simp add: get_movie_def Let_def q l)
  have e: "delete_movie_endpoint example_db 2 0 =
           Some (Inr \<lparr>message = ''success'', data = ?m2\<rparr>, session_delete_movie example_db ?m2)"
    by (simp add: delete_movie_endpoint_def delete_movie_def g)
  have "query_movie (session_delete_movie example_db ?m2) 2 = None"
    using session_delete_movie_clean [of example_db ?m2] by simp
  with e have "\<exists>d'. delete_movie_endpoint example_db 2 0 =
           Some (Inr \<lparr>message = ''success'', data = ?m2\<rparr>, d') \<and> query_movie d' 2 = None"
    by (intro exI [of _ "session_delete_movie example_db ?m2"] conjI)
  with a b c show ?thesis by (intro conjI)
qed

section \<open>Replies inherit the movie of their parent\<close>

lemma wf_get_comment:
  assumes wf: "wf_db d" and "c \<in> set (comments d)"
  shows "get_comment d (c_id c) = Some c"
  unfolding get_comment_def
  using distinct_find_self [OF wf_comments_distinct [OF wf] assms(2)] by simp

text \<open>
  C1. In every store the application can reach, a comment with a parent has its parent in
  the store, and the parent has the same movie id. A reply that the endpoint creates is
  stored with the movie id of the parent it names; the request body has no movie id.
\<close>

theorem reply_has_movie_of_parent:
  assumes "reachable d"
  shows "(\<forall>c \<in> set (comments d). \<forall>p. c_parent_comment_id c = Some p \<longrightarrow>
            (\<exists>pc. get_comment d p = Some pc \<and> c_movie_id c = c_movie_id pc)) \<and>
         (\<forall>nc d'. add_nested_comment d parent_comment_id body u = (Inr nc, d') \<longrightarrow>
            (\<exists>pc. get_comment d parent_comment_id = Some pc \<and>
                  c_movie_id nc = c_movie_id pc \<and>
                  c_parent_comment_id nc = Some parent_comment_id \<and>
                  c_user_id nc = u \<and> c_comment_text nc = comment_text body \<and>
                  comments d' = comments d @ [nc] \<and> reachable d'))"
proof (intro conjI ballI allI impI)
  have wf: "wf_db d" using assms by (rule reachable_wf)
  fix c p assume c: "c \<in> set (comments d)" and cp: "c_parent_comment_id c = Some p"
  from wf_parent_ex [OF wf c cp] obtain pc where
    pc: "pc \<in> set (comments d)" "c_id pc = p" "c_movie_id pc = c_movie_id c" by blast
  from wf_get_comment [OF wf pc(1)] pc(2,3)
  show "\<exists>pc. get_comment d p = Some pc \<and> c_movie_id c = c_movie_id pc" by simp
next
  fix nc d'
  assume res: "add_nested_comment d parent_comment_id body u = (Inr nc, d')"
  have r': "reachable d'" using assms res by (rule reachable.r_add_nested_comment)
  have v: "validate_CommentCreate body = Inr body"
  proof (cases "length (comment_text body) < 2")
    case True
    with res show ?thesis by (simp add: add_nested_comment_def validate_CommentCreate_def)
  next
    case False
    then show ?thesis by (simp add: validate_CommentCreate_def)
  qed
  obtain r0 d0 where cr: "create_nested_comment d body parent_comment_id u = (r0, d0)"
    by (cases "create_nested_comment d body parent_comment_id u")
  from res v cr have "r0 = Inr nc \<and> d0 = d'"
    by (auto simp: add_nested_comment_def split: sum.splits error.splits)
  with create_nested_comment_cases [OF cr] obtain pc where
    "get_comment d parent_comment_id = Some pc" "d' = d\<lparr>comments := comments d @ [nc]\<rparr>"
    "c_parent_comment_id nc = Some parent_comment_id" "c_movie_id nc = c_movie_id pc"
    "c_user_id nc = u" "c_comment_text nc = comment_text body"
    by auto
  with r'
  show "\<exists>pc. get_comment d parent_comment_id = Some pc \<and>
                  c_movie_id nc = c_movie_id pc \<and>
                  c_parent_comment_id nc = Some parent_comment_id \<and>
                  c_user_id nc = u \<and> c_comment_text nc = comment_text body \<and>
                  comments d' = comments d @ [nc] \<and> reachable d'"
    by simp
qed

theorem reply_has_movie_of_parent_witness:
  "reachable example_db \<and>
   (\<exists>c pc. c \<in> set (comments example_db) \<and> c_parent_comment_id c = Some 2 \<and>
      get_comment example_db 2 = Some pc \<and> c_movie_id c = c_movie_id pc) \<and>
   (\<exists>nc d'. add_nested_comment example_db 3 \<lparr>comment_text = ''Me too''\<rparr> 2 = (Inr nc, d') \<and>
      (\<exists>pc. get_comment example_db 3 = Some pc \<and> c_movie_id nc = c_movie_id pc) \<and>
      c_movie_id nc = 1 \<and> c_parent_comment_id nc = Some 3 \<and>
      comments d' = comments example_db @ [nc])"
proof -
  note t = reply_has_movie_of_parent [OF reachable_example_db, of 3 "\<lparr>comment_text = ''Me too''\<rparr>" 2]
  let ?c3 = "\<lparr>c_id = 3, c_comment_text = ''So do I'', c_movie_id = 1,
             c_user_id = 1, c_parent_comment_id = Some 2\<rparr>"
  let ?nc = "\<lparr>c_id = 6, c_comment_text = ''Me too'', c_movie_id = 1, c_user_id = 2,
              c_parent_comment_id = Some 3\<rparr>"
  let ?d' = "example_db\<lparr>comments := comments example_db @ [?nc]\<rparr>"
  have c3: "?c3 \<in> set (comments example_db)" "c_parent_comment_id ?c3 = Some 2"
    by (simp_all add: example_db_def)
  from t [THEN conjunct1, rule_format, OF c3]
  obtain pc where pc: "get_comment example_db 2 = Some pc" "c_movie_id ?c3 = c_movie_id pc"
    by (elim exE conjE)
  from c3 pc have a: "\<exists>c pc. c \<in> set (comments example_db) \<and> c_parent_comment_id c = Some 2 \<and>
      get_comment example_db 2 = Some pc \<and> c_movie_id c = c_movie_id pc"
    by (intro exI [of _ ?c3] exI [of _ pc] conjI)
  have e: "add_nested_comment example_db 3 \<lparr>comment_text = ''Me too''\<rparr> 2 = (Inr ?nc, ?d')"
    by (simp add: add_nested_comment_def validate_CommentCreate_def create_nested_comment_def
          next_id_def Let_def example_db_def)
  from t [THEN conjunct2, rule_format, OF e]
  obtain qc where qc: "get_comment example_db 3 = Some qc" "c_movie_id ?nc = c_movie_id qc"
    by (elim exE conjE)
  then have q: "\<exists>pc. get_comment example_db 3 = Some pc \<and> c_movie_id ?nc = c_movie_id pc"
    by (intro exI [of _ qc] conjI)
  have r: "c_movie_id ?nc = 1" "c_parent_comment_id ?nc = Some 3"
    "comments ?d' = comments example_db @ [?nc]" by simp_all
  have b: "\<exists>nc d'. add_nested_comment example_db 3 \<lparr>comment_text = ''Me too''\<rparr> 2 = (Inr nc, d') \<and>
      (\<exists>pc. get_comment example_db 3 = Some pc \<and> c_movie_id nc = c_movie_id pc) \<and>
      c_movie_id nc = 1 \<and> c_parent_comment_id nc = Some 3 \<and>
      comments d' = comments example_db @ [nc]"
  proof (rule exI [of _ ?nc], rule exI [of _ ?d'])
    from e q r
    show "add_nested_comment example_db 3 \<lparr>comment_text = ''Me too''\<rparr> 2 = (Inr ?nc, ?d') \<and>
      (\<exists>pc. get_comment example_db 3 = Some pc \<and> c_movie_id ?nc = c_movie_id pc) \<and>
      c_movie_id ?nc = 1 \<and> c_parent_comment_id ?nc = Some 3 \<and>
      comments ?d' = comments example_db @ [?nc]"
      by (intro conjI)
  qed
  from reachable_example_db a b show ?thesis by (intro conjI)
qed

section \<open>Listing the comments of a movie\<close>

lemma set_sql_limit_offset: "set (sql_limit limit (sql_offset skip xs)) \<subseteq> set xs"
proof -
  have "set (sql_limit limit ys) \<subseteq> set ys" for ys :: "'a list"
    by (auto simp: sql_limit_def dest: in_set_takeD)
  moreover have "set (sql_offset skip xs) \<subseteq> set xs"
    by (auto simp: sql_offset_def dest: in_set_dropD)
  ultimately show ?thesis by blast
qed

text \<open>
  C9. Listing the comments of a movie fails with 404 when the movie does not exist.
  Otherwise, in every store the application can reach, the endpoint returns, and the
  roots of its answer are the movie's comments without a parent, in table order, with the
  first \<open>skip\<close> of them dropped and at most \<open>limit\<close> of the rest kept (all of the rest for a
  negative \<open>limit\<close>): replies are neither counted nor cut. Each returned comment carries its
  full reply subtree, whose ids are the root's and its descendants'.
\<close>

theorem get_comments_paginates_roots:
  "(query_movie d movie_id = None \<longrightarrow>
      get_comments_endpoint d movie_id skip limit = Some (Inl (HTTPException 404 ''Movie not found''))) \<and>
   (reachable d \<longrightarrow> query_movie d movie_id \<noteq> None \<longrightarrow>
      (\<exists>ts. get_comments_endpoint d movie_id skip limit = Some (Inr ts) \<and>
         (0 \<le> limit \<longrightarrow>
            map root_of ts =
              take (nat limit) (drop (nat skip)
                (filter (\<lambda>c. c_movie_id c = movie_id \<and> c_parent_comment_id c = None) (comments d))) \<and>
            length ts =
              min (nat limit)
                (length (filter (\<lambda>c. c_movie_id c = movie_id \<and> c_parent_comment_id c = None)
                           (comments d)) - nat skip)) \<and>
         (limit < 0 \<longrightarrow>
            map root_of ts =
              drop (nat skip)
                (filter (\<lambda>c. c_movie_id c = movie_id \<and> c_parent_comment_id c = None) (comments d))) \<and>
         (\<forall>t \<in> set ts. c_parent_comment_id (root_of t) = None \<and> c_movie_id (root_of t) = movie_id \<and>
            full_tree (comments d) t \<and>
            set (tree_ids t) = insert (c_id (root_of t))
                                 (descendants (comments d) (c_id (root_of t))))))"
proof (intro conjI impI)
  assume "query_movie d movie_id = None"
  then show "get_comments_endpoint d movie_id skip limit = Some (Inl (HTTPException 404 ''Movie not found''))"
    by (simp add: get_comments_endpoint_def get_comments_def)
next
  assume r: "reachable d" and q: "query_movie d movie_id \<noteq> None"
  have wf: "wf_db d" using r by (rule reachable_wf)
  let ?roots = "filter (\<lambda>c. c_movie_id c = movie_id \<and> c_parent_comment_id c = None) (comments d)"
  let ?page = "sql_limit limit (sql_offset skip ?roots)"
  have sub: "set ?page \<subseteq> set ?roots" by (rule set_sql_limit_offset)
  then have sub': "set ?page \<subseteq> set (comments d)" by auto
  from q have gc: "get_comments d movie_id skip limit = Inr ?page"
    by (auto simp: get_comments_def)
  from load_roots [OF wf sub'] obtain ts where
    th: "those (map (\<lambda>c. map_option (CommentNode c)
                   (load_replies (length (comments d)) (comments d) c)) ?page) = Some ts"
    and roots: "map root_of ts = ?page" and full: "\<forall>t \<in> set ts. full_tree (comments d) t"
    by blast
  have res: "get_comments_endpoint d movie_id skip limit = Some (Inr ts)"
    by (simp add: get_comments_endpoint_def gc th)
  have pos: "map root_of ts = take (nat limit) (drop (nat skip) ?roots) \<and>
             length ts = min (nat limit) (length ?roots - nat skip)" if "0 \<le> limit"
  proof -
    from that roots have m: "map root_of ts = take (nat limit) (drop (nat skip) ?roots)"
      by (simp add: sql_limit_def sql_offset_def)
    have "length ts = length (map root_of ts)" by simp
    also have "\<dots> = min (nat limit) (length ?roots - nat skip)" unfolding m by simp
    finally show ?thesis using m by simp
  qed
  have neg: "map root_of ts = drop (nat skip) ?roots" if "limit < 0"
    using that roots by (simp add: sql_limit_def sql_offset_def)
  have each: "c_parent_comment_id (root_of t) = None \<and> c_movie_id (root_of t) = movie_id \<and>
            full_tree (comments d) t \<and>
            set (tree_ids t) = insert (c_id (root_of t)) (descendants (comments d) (c_id (root_of t)))"
    if t: "t \<in> set ts" for t
  proof -
    have "root_of t \<in> set (map root_of ts)" using t by simp
    then have "root_of t \<in> set ?roots" using roots sub by auto
    then have "c_parent_comment_id (root_of t) = None \<and> c_movie_id (root_of t) = movie_id" by simp
    moreover have ft: "full_tree (comments d) t" using full t by simp
    ultimately show ?thesis using full_tree_ids [OF ft] by simp
  qed
  show "\<exists>ts. get_comments_endpoint d movie_id skip limit = Some (Inr ts) \<and>
         (0 \<le> limit \<longrightarrow>
            map root_of ts = take (nat limit) (drop (nat skip) ?roots) \<and>
            length ts = min (nat limit) (length ?roots - nat skip)) \<and>
         (limit < 0 \<longrightarrow> map root_of ts = drop (nat skip) ?roots) \<and>
         (\<forall>t \<in> set ts. c_parent_comment_id (root_of t) = None \<and> c_movie_id (root_of t) = movie_id \<and>
            full_tree (comments d) t \<and>
            set (tree_ids t) = insert (c_id (root_of t))
                                 (descendants (comments d) (c_id (root_of t))))"
  proof (rule exI [of _ ts], intro conjI impI ballI)
    show "get_comments_endpoint d movie_id skip limit = Some (Inr ts)" by (rule res)
  next
    assume "0 \<le> limit"
    from pos [OF this] show "map root_of ts = take (nat limit) (drop (nat skip) ?roots)"
      and "length ts = min (nat limit) (length ?roots - nat skip)" by simp_all
  next
    assume "limit < 0" then show "map root_of ts = drop (nat skip) ?roots" by (rule neg)
  next
    fix t assume t: "t \<in> set ts"
    from each [OF t]
    show "c_parent_comment_id (root_of t) = None" and "c_movie_id (root_of t) = movie_id"
      and "full_tree (comments d) t"
      and "set (tree_ids t) = insert (c_id (root_of t)) (descendants (comments d) (c_id (root_of t)))"
      by simp_all
  qed
qed


theorem get_comments_paginates_roots_witness:
  "reachable example_db \<and> query_movie example_db 1 \<noteq> None \<and> query_movie example_db 9 = None \<and>
   map c_id (filter (\<lambda>c. c_movie_id c = 1 \<and> c_parent_comment_id c = None) (comments example_db))
     = [1, 4, 5] \<and>
   get_comments_endpoint example_db 9 0 1 = Some (Inl (HTTPException 404 ''Movie not found'')) \<and>
   (\<exists>t. get_comments_endpoint example_db 1 0 1 = Some (Inr [t]) \<and>
        c_id (root_of t) = 1 \<and> full_tree (comments example_db) t \<and>
        set (tree_ids t) = {1, 2, 3}) \<and>
   (\<exists>ts. get_comments_endpoint example_db 1 1 2 = Some (Inr ts) \<and>
        map c_id (map root_of ts) = [4, 5]) \<and>
   (\<exists>ts. get_comments_endpoint example_db 1 2 5 = Some (Inr ts) \<and>
        map c_id (map root_of ts) = [5]) \<and>
   (\<exists>ts. get_comments_endpoint example_db 1 1 (- 1) = Some (Inr ts) \<and>
        map c_id (map root_of ts) = [4, 5])"
proof -
  have q1: "query_movie example_db 1 \<noteq> None" by (simp add: query_movie_def example_db_def)
  have q9: "query_movie example_db 9 = None" by (simp add: query_movie_def example_db_def)
  let ?c1 = "\<lparr>c_id = 1, c_comment_text = ''Great movie!'', c_movie_id = 1, c_user_id = 1,
          c_parent_comment_id = None\<rparr>"
  let ?c4 = "\<lparr>c_id = 4, c_comment_text = ''Too long'', c_movie_id = 1, c_user_id = 2,
          c_parent_comment_id = None\<rparr>"
  let ?c5 = "\<lparr>c_id = 5, c_comment_text = ''A classic'', c_movie_id = 1, c_user_id = 1,
          c_parent_comment_id = None\<rparr>"
  have roots: "filter (\<lambda>c. c_movie_id c = 1 \<and> c_parent_comment_id c = None) (comments example_db)
               = [?c1, ?c4, ?c5]"
    by (simp add: example_db_def)
  have n: "map c_id (filter (\<lambda>c. c_movie_id c = 1 \<and> c_parent_comment_id c = None) (comments example_db))
     = [1, 4, 5]"
    unfolding roots by simp
  from get_comments_paginates_roots [of example_db 9 0 1] q9
  have a: "get_comments_endpoint example_db 9 0 1 = Some (Inl (HTTPException 404 ''Movie not found''))"
    by simp
  have b: "\<exists>t. get_comments_endpoint example_db 1 0 1 = Some (Inr [t]) \<and>
        c_id (root_of t) = 1 \<and> full_tree (comments example_db) t \<and>
        set (tree_ids t) = {1, 2, 3}"
  proof -
    note t = get_comments_paginates_roots [of example_db 1 0 1, THEN conjunct2, rule_format,
        OF reachable_example_db q1, unfolded roots]
    from t obtain ts where ts: "get_comments_endpoint example_db 1 0 1 = Some (Inr ts)"
      "0 \<le> (1::int) \<longrightarrow> map root_of ts = take (nat 1) (drop (nat 0) [?c1, ?c4, ?c5]) \<and>
         length ts = min (nat 1) (length [?c1, ?c4, ?c5] - nat 0)"
      "\<forall>t \<in> set ts. c_parent_comment_id (root_of t) = None \<and> c_movie_id (root_of t) = 1 \<and>
        full_tree (comments example_db) t \<and>
        set (tree_ids t) = insert (c_id (root_of t)) (descendants (comments example_db) (c_id (root_of t)))"
      by (elim exE conjE)
    from ts(2) have "map root_of ts = [?c1]" by simp
    then obtain t where t1: "ts = [t]" "root_of t = ?c1" by auto
    with ts(3) have "full_tree (comments example_db) t"
      "set (tree_ids t) = insert 1 (descendants (comments example_db) 1)" by simp_all
    then have "full_tree (comments example_db) t \<and> set (tree_ids t) = {1, 2, 3}"
      by (simp add: example_descendants_1)
    with ts(1) t1 show ?thesis by (intro exI [of _ t]) simp
  qed
  have c: "\<exists>ts. get_comments_endpoint example_db 1 1 2 = Some (Inr ts) \<and>
        map c_id (map root_of ts) = [4, 5]"
  proof -
    note t = get_comments_paginates_roots [of example_db 1 1 2, THEN conjunct2, rule_format,
        OF reachable_example_db q1, unfolded roots]
    from t obtain ts where ts: "get_comments_endpoint example_db 1 1 2 = Some (Inr ts)"
      "0 \<le> (2::int) \<longrightarrow> map root_of ts = take (nat 2) (drop (nat 1) [?c1, ?c4, ?c5]) \<and>
         length ts = min (nat 2) (length [?c1, ?c4, ?c5] - nat 1)"
      by (elim exE conjE)
    from ts(2) have "map root_of ts = [?c4, ?c5]" by simp
    then have "map c_id (map root_of ts) = [4, 5]" by simp
    with ts(1) show ?thesis by (intro exI [of _ ts] conjI)
  qed
  have e: "\<exists>ts. get_comments_endpoint example_db 1 2 5 = Some (Inr ts) \<and>
        map c_id (map root_of ts) = [5]"
  proof -
    note t = get_comments_paginates_roots [of example_db 1 2 5, THEN conjunct2, rule_format,
        OF reachable_example_db q1, unfolded roots]
    from t obtain ts where ts: "get_comments_endpoint example_db 1 2 5 = Some (Inr ts)"
      "0 \<le> (5::int) \<longrightarrow> map root_of ts = take (nat 5) (drop (nat 2) [?c1, ?c4, ?c5]) \<and>
         length ts = min (nat 5) (length [?c1, ?c4, ?c5] - nat 2)"
      by (elim exE conjE)
    from ts(2) have "map root_of ts = [?c5]" by simp
    then have "map c_id (map root_of ts) = [5]" by simp
    with ts(1) show ?thesis by (intro exI [of _ ts] conjI)
  qed
  have f: "\<exists>ts. get_comments_endpoint example_db 1 1 (- 1) = Some (Inr ts) \<and>
        map c_id (map root_of ts) = [4, 5]"
  proof -
    note t = get_comments_paginates_roots [of example_db 1 1 "- 1", THEN conjunct2, rule_format,
        OF reachable_example_db q1, unfolded roots]
    from t obtain ts where ts: "get_comments_endpoint example_db 1 1 (- 1) = Some (Inr ts)"
      "(- 1 :: int) < 0 \<longrightarrow> map root_of ts = drop (nat 1) [?c1, ?c4, ?c5]"
      by (elim exE conjE)
    from ts(2) have "map root_of ts = [?c4, ?c5]" by simp
    then have "map c_id (map root_of ts) = [4, 5]" by simp
    with ts(1) show ?thesis by (intro exI [of _ ts] conjI)
  qed
  from reachable_example_db q1 q9 n a b c e f show ?thesis by (intro conjI)
qed

end
